theory Spec2Isabelle
  imports Main "HOL-Library.Word"
begin

unbundle bit_operations_syntax

section \<open>Bytes, errors and outcomes\<close>

text \<open>
  The package \<^verbatim>\<open>goapng\<close> (file \<^verbatim>\<open>writer.go\<close>) assembles an animated PNG from a list of
  rasters. Bytes are 8-bit words, the sequence number, the loop count and every chunk length
  are 32-bit words, delays are 16-bit words. Go's \<^verbatim>\<open>int\<close> (64 bits on the platforms the
  package targets) is modelled by \<^typ>\<open>int\<close> for coordinates and by \<^typ>\<open>nat\<close> for lengths;
  every conversion to \<^verbatim>\<open>uint32\<close> is written out as the truncation it is.
\<close>

type_synonym byte = "8 word"
type_synonym uint16 = "16 word"
type_synonym uint32 = "32 word"
type_synonym idat = "byte list"

text \<open>
  The \<^verbatim>\<open>error\<close> values the package creates or passes on. \<open>ErrSink\<close> stands for an error
  value that belongs to the output sink.
\<close>

datatype error =
    ErrNeedImage          \<comment> \<open>\<^verbatim>\<open>apng: need at least one image\<close>\<close>
  | ErrDelayLengths       \<comment> \<open>\<^verbatim>\<open>apng: mismatched image and delay lengths\<close>\<close>
  | ErrDisposalLengths    \<comment> \<open>\<^verbatim>\<open>apng: mismatch image and disposal lengths\<close>\<close>
  | ErrColorModel         \<comment> \<open>\<^verbatim>\<open>apng: must be all the same color model of images\<close>\<close>
  | ErrFrameRegion        \<comment> \<open>\<^verbatim>\<open>apng: must fullfill frame region constraints.\<close>\<close>
  | ErrPngEncoding string \<comment> \<open>\<^verbatim>\<open>apng: png encoding error(...)\<close>, with the codec's message\<close>
  | ErrChunkTooLarge      \<comment> \<open>\<^verbatim>\<open>apng: chunk is too large\<close>\<close>
  | EOF                   \<comment> \<open>\<^verbatim>\<open>io.EOF\<close>\<close>
  | ErrUnexpectedEOF      \<comment> \<open>\<^verbatim>\<open>io.ErrUnexpectedEOF\<close>\<close>
  | ErrSink nat

text \<open>A call either returns or ends in a run-time panic.\<close>

datatype 'a outcome = Return 'a | Panic

definition bytes_of :: "string \<Rightarrow> byte list" where
  "bytes_of s = map (\<lambda>c. word_of_nat (of_char c)) s"

definition pngHeader :: "byte list" where
  "pngHeader = [0x89, 0x50, 0x4E, 0x47, 0x0D, 0x0A, 0x1A, 0x0A]"

section \<open>Binary primitives\<close>

text \<open>
  \<^verbatim>\<open>writeUint16\<close> and \<^verbatim>\<open>writeUint32\<close> store a value big-endian into the slice they are
  given; the model returns the bytes stored. \<open>Uint32\<close> is \<^verbatim>\<open>binary.BigEndian.Uint32\<close>,
  which the chunk reader uses on the first four bytes of a chunk prefix.
\<close>

definition writeUint16 :: "uint16 \<Rightarrow> byte list" where
  "writeUint16 u = [ucast (drop_bit 8 u), ucast u]"

definition writeUint32 :: "uint32 \<Rightarrow> byte list" where
  "writeUint32 u =
     [ucast (drop_bit 24 u), ucast (drop_bit 16 u), ucast (drop_bit 8 u), ucast u]"

definition Uint32 :: "byte list \<Rightarrow> uint32" where
  "Uint32 b =
     ucast (b ! 3) OR push_bit 8 (ucast (b ! 2)) OR push_bit 16 (ucast (b ! 1))
       OR push_bit 24 (ucast (b ! 0))"

text \<open>
  \<^verbatim>\<open>hash/crc32\<close> with the IEEE polynomial, as the standard library computes it: the table
  entry of a byte is eight shift-and-xor rounds with the reflected polynomial
  \<^verbatim>\<open>0xedb88320\<close>, and an update complements the running value, folds the bytes through
  the table and complements again. \<^verbatim>\<open>crc32.NewIEEE()\<close> starts at 0, its \<^verbatim>\<open>Write\<close> is
  one update and \<^verbatim>\<open>Sum32\<close> returns the running value.
\<close>

definition crc32_IEEE :: uint32 where
  "crc32_IEEE = 0xedb88320"

fun crc32_rounds :: "nat \<Rightarrow> uint32 \<Rightarrow> uint32" where
  "crc32_rounds 0 c = c"
| "crc32_rounds (Suc k) c =
     crc32_rounds k (if bit c 0 then drop_bit 1 c XOR crc32_IEEE else drop_bit 1 c)"

definition crc32_table :: "byte \<Rightarrow> uint32" where
  "crc32_table i = crc32_rounds 8 (ucast i)"

definition crc32_Update :: "uint32 \<Rightarrow> byte list \<Rightarrow> uint32" where
  "crc32_Update crc p =
     NOT (foldl (\<lambda>c v. crc32_table (ucast c XOR v) XOR drop_bit 8 c) (NOT crc) p)"

definition ChecksumIEEE :: "byte list \<Rightarrow> uint32" where
  "ChecksumIEEE data = crc32_Update 0 data"

section \<open>The output sink\<close>

text \<open>
  The sink is an \<^verbatim>\<open>io.Writer\<close>. Its state is the history of the \<^verbatim>\<open>Write\<close> calls it has
  received in this encode call, each with the bytes it was handed; its behaviour is a
  function that says, for a history and the next slice, whether the call returns
  \<^verbatim>\<open>nil\<close> or an error. A call that returns \<^verbatim>\<open>nil\<close> has written the whole slice.
\<close>

type_synonym sink = "byte list list"
type_synonym writer = "sink \<Rightarrow> byte list \<Rightarrow> error option"

definition Write :: "writer \<Rightarrow> sink \<Rightarrow> byte list \<Rightarrow> sink \<times> error option" where
  "Write wr w p = (w @ [p], wr w p)"

text \<open>A \<^verbatim>\<open>bytes.Buffer\<close> as sink never fails.\<close>

definition bufferWriter :: writer where
  "bufferWriter w p = None"

text \<open>A sink that accepts \<open>k\<close> bytes in all and fails every call that would exceed them.\<close>

definition limitedWriter :: "nat \<Rightarrow> error \<Rightarrow> writer" where
  "limitedWriter k e w p = (if length (concat w) + length p \<le> k then None else Some e)"

section \<open>The chunk writer\<close>

text \<open>
  The fields of \<^verbatim>\<open>encoder\<close> that carry state: the sequence number, the header and data
  payloads of the frame at hand, and the sticky error. The scratch arrays \<^verbatim>\<open>tmpHeader\<close>,
  \<^verbatim>\<open>tmp\<close> and \<^verbatim>\<open>tmpFooter\<close> are filled and read within one call, so the model passes
  the bytes written to them; the animation and the sink are arguments.
\<close>

record encoder =
  seqNum :: uint32
  ihdr :: "byte list"
  idats :: "idat list"
  err :: "error option"

text \<open>
  \<^verbatim>\<open>writeChunk\<close>: nothing when an error is pending; the length check
  \<^verbatim>\<open>int(uint32(len(b))) != len(b)\<close>; then three \<^verbatim>\<open>Write\<close> calls (the 8-byte prefix, the
  payload, the CRC), each of which ends the call when it fails. Every caller passes a
  four-character literal as \<open>name\<close>.
\<close>

definition writeChunk :: "writer \<Rightarrow> sink \<times> encoder \<Rightarrow> byte list \<Rightarrow> string \<Rightarrow> sink \<times> encoder" where
  "writeChunk wr s b name =
     (let (w, e) = s in
      if err e \<noteq> None then (w, e)
      else
        let n = (word_of_nat (length b) :: uint32) in
        if unat n \<noteq> length b then (w, e\<lparr>err := Some ErrChunkTooLarge\<rparr>)
        else
          let tmpHeader = writeUint32 n @ bytes_of (take 4 name);
              (w1, r1) = Write wr w tmpHeader
          in if r1 \<noteq> None then (w1, e\<lparr>err := r1\<rparr>)
          else
            let (w2, r2) = Write wr w1 b
            in if r2 \<noteq> None then (w2, e\<lparr>err := r2\<rparr>)
            else
              let crc = crc32_Update (crc32_Update 0 (drop 4 tmpHeader)) b;
                  (w3, r3) = Write wr w2 (writeUint32 crc)
              in (w3, e\<lparr>err := r3\<rparr>))"

text \<open>
  The chunk layout in the words of the specification:
  \<^verbatim>\<open>u32 length(payload) | 4-byte tag | payload | u32 CRC32(tag || payload)\<close>, the checksum
  computed in one pass over the concatenation.
\<close>

definition chunk_layout :: "string \<Rightarrow> byte list \<Rightarrow> byte list" where
  "chunk_layout name payload =
     writeUint32 (word_of_nat (length payload)) @ bytes_of name @ payload
       @ writeUint32 (ChecksumIEEE (bytes_of name @ payload))"

text \<open>
  \<^verbatim>\<open>writeIHDR\<close>, \<^verbatim>\<open>writeacTL\<close>, \<^verbatim>\<open>writeIDATs\<close> and \<^verbatim>\<open>writeIEND\<close>. The animation is the
  \<^verbatim>\<open>APNG\<close> struct (the unused \<^verbatim>\<open>Config\<close> field left out). A frame is a pointer to an
  \<^verbatim>\<open>image.Image\<close> interface value: \<open>None\<close> is the \<^verbatim>\<open>nil\<close> interface value that the
  validation tests for, \<open>Some\<close> a raster with its bounds, its colour model and its pixel
  data (opaque here). The pointers themselves are taken to be valid: a \<^verbatim>\<open>nil\<close> pointer in
  the slice, which the source dereferences in its \<^verbatim>\<open>nil\<close> test and panics on, has no value
  here.

  A colour model is a \<^verbatim>\<open>color.Model\<close> interface value. Go compares two interface values
  by dynamic type and value, and the comparison panics when both have the same dynamic type
  and that type is not comparable, as is the case of \<^verbatim>\<open>color.Palette\<close> (a slice), the model
  of every \<^verbatim>\<open>image.Paletted\<close>. \<open>Comparable v\<close> is a model of a comparable type, identified
  by \<open>v\<close>; \<open>Uncomparable t v\<close> is the model \<open>v\<close> of the uncomparable type \<open>t\<close>.
\<close>

record rectangle =
  MinX :: int
  MinY :: int
  MaxX :: int
  MaxY :: int

datatype color_model = Comparable nat | Uncomparable nat nat

record image =
  Bounds :: rectangle
  ColorModel :: color_model
  Pix :: "nat list"

record APNG =
  Image :: "image option list"
  Delay :: "uint16 list"
  Disposal :: "byte list option"
  LoopCount :: uint32

definition writeIHDR :: "writer \<Rightarrow> sink \<times> encoder \<Rightarrow> sink \<times> encoder" where
  "writeIHDR wr s = writeChunk wr s (ihdr (snd s)) ''IHDR''"

definition writeacTL :: "writer \<Rightarrow> APNG \<Rightarrow> sink \<times> encoder \<Rightarrow> sink \<times> encoder" where
  "writeacTL wr a s =
     writeChunk wr s
       (writeUint32 (word_of_nat (length (Image a))) @ writeUint32 (LoopCount a)) ''acTL''"

text \<open>
  \<^verbatim>\<open>writefcTL\<close> fills 26 bytes of \<^verbatim>\<open>tmp\<close>: the sequence number, width and height from the
  raster's bounds, the offsets, the delay over 100, and two zero bytes for \<^verbatim>\<open>dispose_op\<close>
  and \<^verbatim>\<open>blend_op\<close> (the switch on \<^verbatim>\<open>e.a.Disposal[frameIndex]\<close> is commented out in the
  source). The sequence number is incremented whether or not the chunk was written.
  Indexing outside \<^verbatim>\<open>Image\<close> or \<^verbatim>\<open>Delay\<close>, and calling \<^verbatim>\<open>Bounds\<close> on a \<^verbatim>\<open>nil\<close> raster,
  panic.
\<close>

definition writefcTL ::
  "writer \<Rightarrow> APNG \<Rightarrow> nat \<Rightarrow> sink \<times> encoder \<Rightarrow> sink \<times> encoder outcome" where
  "writefcTL wr a frameIndex s =
     (let (w, e) = s in
      if \<not> frameIndex < length (Image a) then (w, Panic)
      else case Image a ! frameIndex of
        None \<Rightarrow> (w, Panic)
      | Some img \<Rightarrow>
          if \<not> frameIndex < length (Delay a) then (w, Panic)
          else
            let bounds = Bounds img;
                tmp = writeUint32 (seqNum e)
                    @ writeUint32 (word_of_int (MaxX bounds - MinX bounds))
                    @ writeUint32 (word_of_int (MaxY bounds - MinY bounds))
                    @ writeUint32 (word_of_int (MinX bounds))
                    @ writeUint32 (word_of_int (MinY bounds))
                    @ writeUint16 (Delay a ! frameIndex)
                    @ writeUint16 100
                    @ [0]
                    @ [0];
                (w', e') = writeChunk wr (w, e) tmp ''fcTL''
            in (w', Return (e'\<lparr>seqNum := seqNum e' + 1\<rparr>)))"

fun writeIDATs_loop :: "writer \<Rightarrow> idat list \<Rightarrow> sink \<times> encoder \<Rightarrow> sink \<times> encoder" where
  "writeIDATs_loop wr [] s = s"
| "writeIDATs_loop wr (d # ds) s = writeIDATs_loop wr ds (writeChunk wr s d ''IDAT'')"

definition writeIDATs :: "writer \<Rightarrow> sink \<times> encoder \<Rightarrow> sink \<times> encoder" where
  "writeIDATs wr s = writeIDATs_loop wr (idats (snd s)) s"

text \<open>
  \<^verbatim>\<open>writefdATs\<close> builds each payload with \<^verbatim>\<open>make([]byte, 4, len(id))\<close>, which panics when
  the data payload has fewer than four bytes, copies the sequence number into it and
  appends the data payload.
\<close>

fun writefdATs_loop ::
  "writer \<Rightarrow> idat list \<Rightarrow> sink \<times> encoder \<Rightarrow> sink \<times> encoder outcome" where
  "writefdATs_loop wr [] s = (fst s, Return (snd s))"
| "writefdATs_loop wr (d # ds) s =
     (if length d < 4 then (fst s, Panic)
      else
        let fdat = writeUint32 (seqNum (snd s)) @ d;
            (w', e') = writeChunk wr s fdat ''fdAT''
        in writefdATs_loop wr ds (w', e'\<lparr>seqNum := seqNum e' + 1\<rparr>))"

definition writefdATs :: "writer \<Rightarrow> sink \<times> encoder \<Rightarrow> sink \<times> encoder outcome" where
  "writefdATs wr s = writefdATs_loop wr (idats (snd s)) s"

definition writeIEND :: "writer \<Rightarrow> sink \<times> encoder \<Rightarrow> sink \<times> encoder" where
  "writeIEND wr s = writeChunk wr s [] ''IEND''"

section \<open>The chunk reader\<close>

text \<open>
  A \<^verbatim>\<open>bytes.Buffer\<close> that is only read from is the list of its unread bytes.
  \<^verbatim>\<open>Next(n)\<close> returns the next \<open>n\<close> bytes, or all that remain when there are fewer.
  \<^verbatim>\<open>io.ReadFull\<close> fills a slice of length \<open>n\<close>: it succeeds when \<open>n\<close> bytes are there
  (also for \<open>n = 0\<close>), returns \<^verbatim>\<open>io.EOF\<close> when none is, and \<^verbatim>\<open>io.ErrUnexpectedEOF\<close> after
  reading the few that are.
\<close>

definition Buffer_Next :: "byte list \<Rightarrow> nat \<Rightarrow> byte list \<times> byte list" where
  "Buffer_Next buf n = (take n buf, drop n buf)"

definition io_ReadFull :: "byte list \<Rightarrow> nat \<Rightarrow> byte list \<times> byte list \<times> error option" where
  "io_ReadFull buf n =
     (if n \<le> length buf then (take n buf, drop n buf, None)
      else if buf = [] then ([], [], Some EOF)
      else (buf, [], Some ErrUnexpectedEOF))"

datatype stage = dsStart | dsSeenIHDR | dsSeenPLTE | dsSeentRNS | dsSeenIDAT | dsSeenIEND

text \<open>
  \<^verbatim>\<open>pngChunk\<close> (its fields \<^verbatim>\<open>ihdr\<close> and \<^verbatim>\<open>idats\<close> carry the prefix \<open>pc_\<close> here, the
  encoder having fields of the same names) and \<^verbatim>\<open>chunkFetcher\<close>. The fetcher's scratch
  array \<^verbatim>\<open>tmp\<close> has \<^verbatim>\<open>3 * 256\<close> bytes; every read from it follows a write of the same
  range, so only its size is kept.
\<close>

record pngChunk =
  pc_ihdr :: "byte list"
  pc_idats :: "idat list"

record chunkFetcher =
  bb :: "byte list"
  stage :: stage
  pc :: pngChunk

definition chunkFetcher_tmp_len :: nat where
  "chunkFetcher_tmp_len = 3 * 256"

text \<open>
  \<^verbatim>\<open>parseIHDR\<close> slices \<^verbatim>\<open>c.tmp[:length]\<close> before anything is read: a length beyond the
  array panics.
\<close>

definition parseIHDR :: "chunkFetcher \<Rightarrow> uint32 \<Rightarrow> (chunkFetcher \<times> error option) outcome" where
  "parseIHDR c len =
     (if chunkFetcher_tmp_len < unat len then Panic
      else
        let (tmp, rest, r) = io_ReadFull (bb c) (unat len) in
        if r \<noteq> None then Return (c\<lparr>bb := rest\<rparr>, r)
        else Return (c\<lparr>bb := rest, pc := (pc c)\<lparr>pc_ihdr := tmp\<rparr>\<rparr>, None))"

definition parseIDAT :: "chunkFetcher \<Rightarrow> uint32 \<Rightarrow> chunkFetcher \<times> error option" where
  "parseIDAT c len =
     (let (d, rest) = Buffer_Next (bb c) (unat len) in
      if length d < unat len then (c\<lparr>bb := rest\<rparr>, Some EOF)
      else (c\<lparr>bb := rest, pc := (pc c)\<lparr>pc_idats := pc_idats (pc c) @ [d]\<rparr>\<rparr>, None))"

definition parseIEND :: "chunkFetcher \<Rightarrow> uint32 \<Rightarrow> chunkFetcher \<times> error option" where
  "parseIEND c len = (c, None)"

text \<open>
  \<^verbatim>\<open>parsePNGChunk\<close> reads the 8-byte prefix, switches on the tag (the cases \<^verbatim>\<open>PLTE\<close> and
  \<^verbatim>\<open>tRNS\<close> are empty, and a tag outside the switch does nothing either), and then drops
  four bytes with \<^verbatim>\<open>c.bb.Next(4)\<close>, whatever the case did.
\<close>

definition parsePNGChunk :: "chunkFetcher \<Rightarrow> (chunkFetcher \<times> error option) outcome" where
  "parsePNGChunk c =
     (let (tmp, rest, r) = io_ReadFull (bb c) 8;
          c0 = c\<lparr>bb := rest\<rparr>
      in if r \<noteq> None then Return (c0, r)
      else
        let len = Uint32 (take 4 tmp);
            tag = drop 4 tmp;
            res =
              (if tag = bytes_of ''IHDR'' then parseIHDR (c0\<lparr>stage := dsSeenIHDR\<rparr>) len
               else if tag = bytes_of ''PLTE'' then Return (c0, None)
               else if tag = bytes_of ''tRNS'' then Return (c0, None)
               else if tag = bytes_of ''IDAT'' then
                 Return (parseIDAT (c0\<lparr>stage := dsSeenIDAT\<rparr>) len)
               else if tag = bytes_of ''IEND'' then
                 Return (parseIEND (c0\<lparr>stage := dsSeenIEND\<rparr>) len)
               else Return (c0, None))
        in case res of
             Panic \<Rightarrow> Panic
           | Return (c1, e) \<Rightarrow> Return (c1\<lparr>bb := snd (Buffer_Next (bb c1) 4)\<rparr>, e))"

text \<open>
  \<^verbatim>\<open>fetchPNGChunk\<close> skips \<^verbatim>\<open>len(pngHeader)\<close> bytes and parses chunks until the stage is
  \<^verbatim>\<open>dsSeenIEND\<close>; an error ends it, \<^verbatim>\<open>io.EOF\<close> turned into \<^verbatim>\<open>io.ErrUnexpectedEOF\<close>.
  Each round that goes on has consumed a prefix of 8 bytes, which is why the loop ends.
\<close>

function fetchLoop :: "chunkFetcher \<Rightarrow> (error + pngChunk) outcome" where
  "fetchLoop c =
     (if stage c = dsSeenIEND then Return (Inr (pc c))
      else case parsePNGChunk c of
        Panic \<Rightarrow> Panic
      | Return (c', Some e) \<Rightarrow> Return (Inl (if e = EOF then ErrUnexpectedEOF else e))
      | Return (c', None) \<Rightarrow> fetchLoop c')"
  by pat_completeness auto
termination
proof (relation "measure (\<lambda>c. length (bb c))")
  show "wf (measure (\<lambda>c. length (bb c)))"
    by simp
next
  fix c :: chunkFetcher and x1 c' r
  assume "stage c \<noteq> dsSeenIEND" and p: "parsePNGChunk c = Return x1"
    and x: "(c', r) = x1" and r: "r = None"
  from p x r have "parsePNGChunk c = Return (c', None)"
    by simp
  then have "length (bb c') < length (bb c)"
    by (auto simp add: parsePNGChunk_def parseIHDR_def parseIDAT_def parseIEND_def
        io_ReadFull_def Buffer_Next_def Let_def
        split: if_splits prod.splits outcome.splits)
  then show "(c', c) \<in> measure (\<lambda>c. length (bb c))"
    by simp
qed

definition fetchPNGChunk :: "byte list \<Rightarrow> (error + pngChunk) outcome" where
  "fetchPNGChunk buf =
     fetchLoop \<lparr>bb = snd (Buffer_Next buf (length pngHeader)), stage = dsStart,
       pc = \<lparr>pc_ihdr = [], pc_idats = []\<rparr>\<rparr>"

section \<open>Validation\<close>

text \<open>
  \<open>model_neq\<close> is \<^verbatim>\<open>!=\<close> on two \<^verbatim>\<open>color.Model\<close> values. \<^verbatim>\<open>isSameColorModel\<close> compares the
  model of each later frame with that of frame 0 and stops at the first \<^verbatim>\<open>nil\<close> raster or
  difference; \<^verbatim>\<open>fullfillFrameRegionConstraints\<close> does the same with the bounds.
\<close>

fun model_neq :: "color_model \<Rightarrow> color_model \<Rightarrow> bool outcome" where
  "model_neq (Comparable x) (Comparable y) = Return (x \<noteq> y)"
| "model_neq (Uncomparable s u) (Uncomparable t v) = (if s = t then Panic else Return True)"
| "model_neq (Comparable x) (Uncomparable t v) = Return True"
| "model_neq (Uncomparable s u) (Comparable y) = Return True"

fun isSameColorModel_loop :: "color_model \<Rightarrow> image option list \<Rightarrow> bool outcome" where
  "isSameColorModel_loop reference [] = Return True"
| "isSameColorModel_loop reference (None # imgs) = Return False"
| "isSameColorModel_loop reference (Some m # imgs) =
     (case model_neq (ColorModel m) reference of
        Panic \<Rightarrow> Panic
      | Return True \<Rightarrow> Return False
      | Return False \<Rightarrow> isSameColorModel_loop reference imgs)"

definition isSameColorModel :: "image option list \<Rightarrow> bool outcome" where
  "isSameColorModel img =
     (case img of
        [] \<Rightarrow> Return False
      | None # imgs \<Rightarrow> Return False
      | Some m # imgs \<Rightarrow> isSameColorModel_loop (ColorModel m) imgs)"

fun fullfillFrameRegionConstraints_loop :: "rectangle \<Rightarrow> image option list \<Rightarrow> bool" where
  "fullfillFrameRegionConstraints_loop reference [] = True"
| "fullfillFrameRegionConstraints_loop reference (None # imgs) = False"
| "fullfillFrameRegionConstraints_loop reference (Some m # imgs) =
     (let bounds = Bounds m in
      if \<not> (MinX bounds \<ge> 0 \<and> MinY bounds \<ge> 0
             \<and> MaxX bounds \<le> MaxX reference \<and> MaxY bounds \<le> MaxY reference)
      then False
      else fullfillFrameRegionConstraints_loop reference imgs)"

definition fullfillFrameRegionConstraints :: "image option list \<Rightarrow> bool" where
  "fullfillFrameRegionConstraints img =
     (case img of
        [] \<Rightarrow> False
      | None # imgs \<Rightarrow> False
      | Some m # imgs \<Rightarrow>
          (let reference = Bounds m in
           if \<not> (MinX reference \<ge> 0 \<and> MinY reference \<ge> 0) then False
           else fullfillFrameRegionConstraints_loop reference imgs))"

section \<open>EncodeAll\<close>

text \<open>
  \<^verbatim>\<open>png.Encode\<close> is the single-image codec, an argument of the model: for a raster it gives
  the bytes it writes into a fresh buffer, or the message of the error it returns.
  Handing it a \<^verbatim>\<open>nil\<close> raster panics.

  The loop over the frames returns early when the codec or the chunk reader fails; its
  model returns the sink and, when there was no panic, the encoder together with the error
  of an early return (\<open>None\<close> when the loop ran to its end).
\<close>

type_synonym png_encoder = "image \<Rightarrow> string + byte list"

fun encodeFrames ::
  "writer \<Rightarrow> png_encoder \<Rightarrow> APNG \<Rightarrow> nat \<Rightarrow> image option list \<Rightarrow> sink \<times> encoder
     \<Rightarrow> sink \<times> (encoder \<times> error option) outcome" where
  "encodeFrames wr enc a i [] s = (fst s, Return (snd s, None))"
| "encodeFrames wr enc a i (None # imgs) s = (fst s, Panic)"
| "encodeFrames wr enc a i (Some img # imgs) s =
     (case enc img of
        Inl msg \<Rightarrow> (fst s, Return (snd s, Some (ErrPngEncoding msg)))
      | Inr buf \<Rightarrow>
          (case fetchPNGChunk buf of
             Panic \<Rightarrow> (fst s, Panic)
           | Return (Inl e) \<Rightarrow> (fst s, Return (snd s, Some e))
           | Return (Inr p) \<Rightarrow>
               let s1 = (fst s, (snd s)\<lparr>ihdr := pc_ihdr p, idats := pc_idats p\<rparr>) in
               if i = 0 then
                 (case writefcTL wr a i (writeacTL wr a (writeIHDR wr s1)) of
                    (w, Panic) \<Rightarrow> (w, Panic)
                  | (w, Return e) \<Rightarrow> encodeFrames wr enc a (Suc i) imgs (writeIDATs wr (w, e)))
               else
                 (case writefcTL wr a i s1 of
                    (w, Panic) \<Rightarrow> (w, Panic)
                  | (w, Return e) \<Rightarrow>
                      (case writefdATs wr (w, e) of
                         (w', Panic) \<Rightarrow> (w', Panic)
                       | (w', Return e') \<Rightarrow> encodeFrames wr enc a (Suc i) imgs (w', e')))))"

definition EncodeAll :: "writer \<Rightarrow> png_encoder \<Rightarrow> APNG \<Rightarrow> sink \<times> error option outcome" where
  "EncodeAll wr enc a =
     (if length (Image a) = 0 then ([], Return (Some ErrNeedImage))
      else if length (Image a) \<noteq> length (Delay a) then ([], Return (Some ErrDelayLengths))
      else if Disposal a \<noteq> None \<and> length (Image a) \<noteq> length (the (Disposal a))
        then ([], Return (Some ErrDisposalLengths))
      else case isSameColorModel (Image a) of
        Panic \<Rightarrow> ([], Panic)
      | Return False \<Rightarrow> ([], Return (Some ErrColorModel))
      | Return True \<Rightarrow>
          if \<not> fullfillFrameRegionConstraints (Image a)
          then ([], Return (Some ErrFrameRegion))
          else
            let (w, r) = Write wr [] pngHeader;
                e = \<lparr>seqNum = 0, ihdr = [], idats = [], err = r\<rparr>
            in case encodeFrames wr enc a 0 (Image a) (w, e) of
                 (w', Panic) \<Rightarrow> (w', Panic)
               | (w', Return (e', Some early)) \<Rightarrow> (w', Return (Some early))
               | (w', Return (e', None)) \<Rightarrow>
                   let (w'', e'') = writeIEND wr (w', e') in (w'', Return (err e'')))"

section \<open>Decomposing and reassembling a single-frame PNG\<close>

text \<open>
  A PNG stream given by its chunks: the signature, then each chunk in the layout above.
  \<open>reassemble\<close> writes a header payload and data payloads back with the encoder's own
  \<^verbatim>\<open>writeIHDR\<close>, \<^verbatim>\<open>writeIDATs\<close> and \<^verbatim>\<open>writeIEND\<close> after the signature, into a buffer, as
  \<^verbatim>\<open>EncodeAll\<close> does for frame 0 but without the two animation chunks; \<open>roundtrip\<close>
  decomposes a buffer with \<^verbatim>\<open>fetchPNGChunk\<close> and reassembles what it found.
\<close>

definition reassemble :: "pngChunk \<Rightarrow> byte list option" where
  "reassemble p =
     (let (w, r) = Write bufferWriter [] pngHeader;
          e = \<lparr>seqNum = 0, ihdr = pc_ihdr p, idats = pc_idats p, err = r\<rparr>;
          s = writeIEND bufferWriter (writeIDATs bufferWriter (writeIHDR bufferWriter (w, e)))
      in if err (snd s) = None then Some (concat (fst s)) else None)"

definition roundtrip :: "byte list \<Rightarrow> byte list option" where
  "roundtrip buf =
     (case fetchPNGChunk buf of
        Return (Inr p) \<Rightarrow> reassemble p
      | _ \<Rightarrow> None)"

definition png_stream :: "(string \<times> byte list) list \<Rightarrow> byte list" where
  "png_stream cs = pngHeader @ concat (map (\<lambda>(name, payload). chunk_layout name payload) cs)"

section \<open>Notions used to state the properties\<close>

text \<open>
  The standalone encoding of one frame and its decomposition are the first two
  statements of the loop body of \<^verbatim>\<open>EncodeAll\<close>; \<open>frame_payload\<close> names their result. An
  animation is \<open>accepted\<close> when the five checks at the head of \<^verbatim>\<open>EncodeAll\<close> all pass.
\<close>

definition frame_payload :: "png_encoder \<Rightarrow> image \<Rightarrow> (error + pngChunk) outcome" where
  "frame_payload enc img =
     (case enc img of
        Inl msg \<Rightarrow> Return (Inl (ErrPngEncoding msg))
      | Inr buf \<Rightarrow> fetchPNGChunk buf)"

definition accepted :: "APNG \<Rightarrow> bool" where
  "accepted a \<longleftrightarrow>
     length (Image a) \<noteq> 0
     \<and> length (Image a) = length (Delay a)
     \<and> \<not> (Disposal a \<noteq> None \<and> length (Image a) \<noteq> length (the (Disposal a)))
     \<and> isSameColorModel (Image a) = Return True
     \<and> fullfillFrameRegionConstraints (Image a)"

text \<open>
  The structural conditions in the words of the specification: at least one frame; as many
  delays as frames; a disposal list, when there is one, of that length too; every raster
  present and of the colour model of frame 0; frame 0 with non-negative minimum
  coordinates; every later frame with non-negative minimum coordinates and maximum
  coordinates within those of frame 0.
\<close>

definition validation_conditions :: "APNG \<Rightarrow> bool" where
  "validation_conditions a \<longleftrightarrow>
     length (Image a) \<noteq> 0
     \<and> length (Image a) = length (Delay a)
     \<and> (case Disposal a of None \<Rightarrow> True | Some d \<Rightarrow> length d = length (Image a))
     \<and> (case Image a of
          [] \<Rightarrow> False
        | None # later \<Rightarrow> False
        | Some img0 # later \<Rightarrow>
            list_all (\<lambda>m. case m of
                         None \<Rightarrow> False
                       | Some img \<Rightarrow> ColorModel img = ColorModel img0) later
            \<and> 0 \<le> MinX (Bounds img0) \<and> 0 \<le> MinY (Bounds img0)
            \<and> list_all (\<lambda>m. case m of
                           None \<Rightarrow> False
                         | Some img \<Rightarrow>
                             0 \<le> MinX (Bounds img) \<and> 0 \<le> MinY (Bounds img)
                             \<and> MaxX (Bounds img) \<le> MaxX (Bounds img0)
                             \<and> MaxY (Bounds img) \<le> MaxY (Bounds img0)) later)"

text \<open>
  Two readings of a sink's history: every call in it returned \<^verbatim>\<open>nil\<close>; or any call that
  failed is the last one, and its error is the given pending error.
\<close>

definition all_accepted :: "writer \<Rightarrow> sink \<Rightarrow> bool" where
  "all_accepted wr w \<longleftrightarrow> (\<forall>k<length w. wr (take k w) (w ! k) = None)"

definition sink_ok :: "writer \<Rightarrow> sink \<Rightarrow> error option \<Rightarrow> bool" where
  "sink_ok wr w r \<longleftrightarrow>
     (\<forall>k<length w. \<forall>x. wr (take k w) (w ! k) = Some x \<longrightarrow> Suc k = length w \<and> r = Some x)"

text \<open>
  The frame-control payload in the words of the specification: sequence number, width,
  height, x offset, y offset, delay numerator, the denominator 100, and the two zero bytes
  for the disposal and blend operations, 26 bytes in all.
\<close>

definition fcTL_payload :: "uint32 \<Rightarrow> image \<Rightarrow> uint16 \<Rightarrow> byte list" where
  "fcTL_payload seq img delay =
     writeUint32 seq
     @ writeUint32 (word_of_int (MaxX (Bounds img) - MinX (Bounds img)))
     @ writeUint32 (word_of_int (MaxY (Bounds img) - MinY (Bounds img)))
     @ writeUint32 (word_of_int (MinX (Bounds img)))
     @ writeUint32 (word_of_int (MinY (Bounds img)))
     @ writeUint16 delay @ writeUint16 100 @ [0, 0]"

section \<open>The output stream in the words of the specification\<close>

text \<open>
  A frame with what the encode pass has of it: the raster, its delay, and the payloads
  extracted from its standalone PNG. \<open>frames_of\<close> pairs the frames of an animation with
  their delays and payloads; it is defined when every raster is present and encodes and
  decomposes without error.
\<close>

type_synonym frame = "image \<times> uint16 \<times> pngChunk"

fun frames_from :: "png_encoder \<Rightarrow> image option list \<Rightarrow> uint16 list \<Rightarrow> frame list option" where
  "frames_from enc [] delays = Some []"
| "frames_from enc (m # imgs) [] = None"
| "frames_from enc (None # imgs) (delay # delays) = None"
| "frames_from enc (Some img # imgs) (delay # delays) =
     (case frame_payload enc img of
        Return (Inr p) \<Rightarrow> map_option (Cons (img, delay, p)) (frames_from enc imgs delays)
      | _ \<Rightarrow> None)"

definition frames_of :: "png_encoder \<Rightarrow> APNG \<Rightarrow> frame list option" where
  "frames_of enc a = frames_from enc (Image a) (Delay a)"

text \<open>
  The chunks after the signature, by name and payload: the header chunk with the header
  payload of frame 0; the animation-control chunk with the frame count and the loop count;
  for frame 0 a frame-control chunk and one image-data chunk per data payload; for each
  later frame a frame-control chunk and one frame-data chunk per data payload, each made
  of the current sequence number and the data payload; the empty trailer chunk. The
  sequence number starts at 0 and goes up by one with every frame-control and frame-data
  chunk.
\<close>

fun fdAT_chunks :: "uint32 \<Rightarrow> idat list \<Rightarrow> (string \<times> byte list) list" where
  "fdAT_chunks seq [] = []"
| "fdAT_chunks seq (d # ds) = (''fdAT'', writeUint32 seq @ d) # fdAT_chunks (seq + 1) ds"

fun later_chunks :: "uint32 \<Rightarrow> frame list \<Rightarrow> (string \<times> byte list) list" where
  "later_chunks seq [] = []"
| "later_chunks seq ((img, delay, p) # fs) =
     (''fcTL'', fcTL_payload seq img delay) # fdAT_chunks (seq + 1) (pc_idats p)
       @ later_chunks (seq + 1 + word_of_nat (length (pc_idats p))) fs"

definition apng_chunks :: "nat \<Rightarrow> uint32 \<Rightarrow> frame list \<Rightarrow> (string \<times> byte list) list" where
  "apng_chunks n loop fs =
     (case fs of
        [] \<Rightarrow> []
      | (img0, delay0, p0) # later \<Rightarrow>
          [(''IHDR'', pc_ihdr p0),
           (''acTL'', writeUint32 (word_of_nat n) @ writeUint32 loop),
           (''fcTL'', fcTL_payload 0 img0 delay0)]
          @ map (Pair ''IDAT'') (pc_idats p0)
          @ later_chunks 1 later
          @ [(''IEND'', [])])"

text \<open>
  \<open>layout\<close> lays chunks out one after the other; \<open>wellsized\<close> chunks have a four-byte
  name and a payload length that fits 32 bits; \<open>stamped\<close> counts the chunks of a list of
  frames that carry a sequence number.
\<close>

abbreviation layout :: "(string \<times> byte list) list \<Rightarrow> byte list" where
  "layout cs \<equiv> concat (map (\<lambda>(name, payload). chunk_layout name payload) cs)"

definition wellsized :: "(string \<times> byte list) list \<Rightarrow> bool" where
  "wellsized cs = list_all (\<lambda>(name, payload). length name = 4 \<and> length payload < 2 ^ 32) cs"

definition stamped :: "frame list \<Rightarrow> nat" where
  "stamped fs = length fs + sum_list (map (\<lambda>(img, delay, p). length (pc_idats p)) fs)"

text \<open>
  A reader of the finished file, independent of the encoder: it splits the bytes after the
  signature into chunks by their declared lengths and checks each CRC against a one-pass
  recomputation over tag and payload. \<open>seq_numbers\<close> are the first four payload bytes,
  read big-endian, of the chunks tagged \<^verbatim>\<open>fcTL\<close> or \<^verbatim>\<open>fdAT\<close>, in file order;
  \<open>fcTL_count\<close> counts the chunks tagged \<^verbatim>\<open>fcTL\<close>, and \<open>fcTL_zeros\<close> says that each of them
  has 26 payload bytes, the last two of them zero.
\<close>

function read_chunks :: "byte list \<Rightarrow> (byte list \<times> byte list) list option" where
  "read_chunks bs =
     (if bs = [] then Some []
      else if length bs < 12 then None
      else
        let n = unat (Uint32 (take 4 bs));
            tag = take 4 (drop 4 bs);
            rest = drop 8 bs
        in if length rest < n + 4 then None
           else if Uint32 (take 4 (drop n rest)) \<noteq> ChecksumIEEE (tag @ take n rest) then None
           else map_option (Cons (tag, take n rest)) (read_chunks (drop (n + 4) rest)))"
  by pat_completeness auto
termination
  by (relation "measure length") auto

definition tagged :: "(string \<times> byte list) list \<Rightarrow> (byte list \<times> byte list) list" where
  "tagged cs = map (\<lambda>(name, payload). (bytes_of name, payload)) cs"

definition seq_numbers :: "(byte list \<times> byte list) list \<Rightarrow> uint32 list" where
  "seq_numbers cs =
     map (\<lambda>(tag, payload). Uint32 (take 4 payload))
       (filter (\<lambda>(tag, payload). tag = bytes_of ''fcTL'' \<or> tag = bytes_of ''fdAT'') cs)"

definition fcTL_count :: "(byte list \<times> byte list) list \<Rightarrow> nat" where
  "fcTL_count cs = length (filter (\<lambda>(tag, payload). tag = bytes_of ''fcTL'') cs)"

definition fcTL_zeros :: "(byte list \<times> byte list) list \<Rightarrow> bool" where
  "fcTL_zeros cs =
     list_all (\<lambda>(tag, payload). tag = bytes_of ''fcTL'' \<longrightarrow>
        length payload = 26 \<and> payload ! 24 = 0 \<and> payload ! 25 = 0) cs"

section \<open>Example inputs\<close>

text \<open>A fresh encoder, as \<^verbatim>\<open>EncodeAll\<close> builds it when the signature was written.\<close>

definition fresh_encoder :: encoder where
  "fresh_encoder = \<lparr>seqNum = 0, ihdr = [], idats = [], err = None\<rparr>"

text \<open>
  The standalone PNG of a 1\<times>1 RGBA raster: its header payload, its data payload (a zlib
  stream) and the stream. \<open>truncated_png\<close> stops four bytes into the data payload, which
  declares thirteen; \<open>no_trailer_png\<close> ends after the data chunk. \<open>paletted_png\<close> is the
  standalone PNG of a 1\<times>1 paletted raster with one palette entry.
\<close>

definition rgba_ihdr :: "byte list" where
  "rgba_ihdr = [0, 0, 0, 1, 0, 0, 0, 1, 8, 6, 0, 0, 0]"

definition rgba_idat :: "byte list" where
  "rgba_idat = [0x78, 0x9C, 0x63, 0xF8, 0xCF, 0xC0, 0xF0, 0x1F, 0x00, 0x05, 0x00, 0x01, 0xFF]"

definition rgba_png :: "byte list" where
  "rgba_png = pngHeader @ chunk_layout ''IHDR'' rgba_ihdr @ chunk_layout ''IDAT'' rgba_idat
     @ chunk_layout ''IEND'' []"

definition truncated_png :: "byte list" where
  "truncated_png = pngHeader @ chunk_layout ''IHDR'' rgba_ihdr
     @ writeUint32 13 @ bytes_of ''IDAT'' @ [0x78, 0x9C, 0x63, 0xF8]"

definition no_trailer_png :: "byte list" where
  "no_trailer_png = pngHeader @ chunk_layout ''IHDR'' rgba_ihdr @ chunk_layout ''IDAT'' rgba_idat"
definition paletted_png :: "byte list" where
  "paletted_png = png_stream
     [(''IHDR'', [0, 0, 0, 1, 0, 0, 0, 1, 8, 3, 0, 0, 0]),
      (''PLTE'', [0xFF, 0, 0]),
      (''IDAT'', [0x78, 0x9C, 0x63, 0x60, 0x00, 0x00, 0x00, 0x02, 0x00, 0x01]),
      (''IEND'', [])]"

text \<open>
  Rasters: one RGBA pixel, an empty raster (zero width and height, which the validation
  lets through as a later frame), a raster wider than the pixel, and two paletted pixels
  of different palettes, whose colour models are of the uncomparable type
  \<^verbatim>\<open>color.Palette\<close>. \<open>example_codec\<close> does
  what \<^verbatim>\<open>png.Encode\<close> does on them: it rejects an empty raster and gives the standalone
  PNGs above for the others. Then four animations made of these rasters.
\<close>

definition pixel_raster :: image where
  "pixel_raster = \<lparr>Bounds = \<lparr>MinX = 0, MinY = 0, MaxX = 1, MaxY = 1\<rparr>,
     ColorModel = Comparable 0, Pix = [0xFF0000FF]\<rparr>"

definition empty_raster :: image where
  "empty_raster = \<lparr>Bounds = \<lparr>MinX = 0, MinY = 0, MaxX = 0, MaxY = 0\<rparr>,
     ColorModel = Comparable 0, Pix = []\<rparr>"

definition wide_raster :: image where
  "wide_raster = \<lparr>Bounds = \<lparr>MinX = 0, MinY = 0, MaxX = 2, MaxY = 1\<rparr>,
     ColorModel = Comparable 0, Pix = [0xFF0000FF, 0xFF0000FF]\<rparr>"

definition paletted_raster :: image where
  "paletted_raster = \<lparr>Bounds = \<lparr>MinX = 0, MinY = 0, MaxX = 1, MaxY = 1\<rparr>,
     ColorModel = Uncomparable 0 0, Pix = [0]\<rparr>"

definition example_codec :: png_encoder where
  "example_codec img =
     (if MaxX (Bounds img) - MinX (Bounds img) \<le> 0 \<or> MaxY (Bounds img) - MinY (Bounds img) \<le> 0
      then Inl ''png: invalid format: invalid image size''
      else case ColorModel img of
        Comparable v \<Rightarrow> Inr rgba_png
      | Uncomparable t v \<Rightarrow> Inr paletted_png)"

definition one_frame :: APNG where
  "one_frame = \<lparr>Image = [Some pixel_raster], Delay = [10], Disposal = None, LoopCount = 0\<rparr>"

definition pixel_then_empty :: APNG where
  "pixel_then_empty =
     \<lparr>Image = [Some pixel_raster, Some empty_raster], Delay = [10, 10], Disposal = None,
      LoopCount = 0\<rparr>"

definition pixel_then_wide :: APNG where
  "pixel_then_wide =
     \<lparr>Image = [Some pixel_raster, Some wide_raster], Delay = [10, 10], Disposal = None,
      LoopCount = 0\<rparr>"

definition two_paletted :: APNG where
  "two_paletted =
     \<lparr>Image = [Some paletted_raster, Some paletted_raster], Delay = [10, 10], Disposal = None,
      LoopCount = 0\<rparr>"

definition other_paletted_raster :: image where
  "other_paletted_raster = \<lparr>Bounds = \<lparr>MinX = 0, MinY = 0, MaxX = 1, MaxY = 1\<rparr>,
     ColorModel = Uncomparable 0 1, Pix = [0]\<rparr>"

definition two_palettes :: APNG where
  "two_palettes =
     \<lparr>Image = [Some paletted_raster, Some other_paletted_raster], Delay = [10, 10],
      Disposal = None, LoopCount = 0\<rparr>"

definition two_pixels :: APNG where
  "two_pixels =
     \<lparr>Image = [Some pixel_raster, Some pixel_raster], Delay = [10, 20],
      Disposal = Some [2, 1], LoopCount = 3\<rparr>"

section \<open>Facts about the primitives\<close>

lemma length_writeUint32 [simp]: "length (writeUint32 u) = 4"
  by (simp add: writeUint32_def)

lemma length_writeUint16 [simp]: "length (writeUint16 u) = 2"
  by (simp add: writeUint16_def)

lemma length_bytes_of [simp]: "length (bytes_of s) = length s"
  by (simp add: bytes_of_def)

lemma Uint32_writeUint32 [simp]: "Uint32 (writeUint32 u @ rest) = u"
proof -
  have "Uint32 (writeUint32 u @ rest) =
      ucast (ucast u :: byte) OR push_bit 8 (ucast (ucast (drop_bit 8 u) :: byte))
        OR push_bit 16 (ucast (ucast (drop_bit 16 u) :: byte))
        OR push_bit 24 (ucast (ucast (drop_bit 24 u) :: byte))"
    by (simp add: Uint32_def writeUint32_def)
  also have "\<dots> = u"
  proof (rule bit_word_eqI)
    fix k :: nat
    assume "k < LENGTH(32)"
    then have k: "k < 32" by simp
    consider "k < 8" | "8 \<le> k" "k < 16" | "16 \<le> k" "k < 24" | "24 \<le> k"
      by linarith
    then show "bit (ucast (ucast u :: byte) OR push_bit 8 (ucast (ucast (drop_bit 8 u) :: byte))
        OR push_bit 16 (ucast (ucast (drop_bit 16 u) :: byte))
        OR push_bit 24 (ucast (ucast (drop_bit 24 u) :: byte)) :: uint32) k = bit u k"
      using k by cases (auto simp add: bit_simps)
  qed
  finally show ?thesis .
qed

lemma crc32_Update_append:
  "crc32_Update (crc32_Update c xs) ys = crc32_Update c (xs @ ys)"
  by (simp add: crc32_Update_def)

lemma crc32_two_writes:
  "crc32_Update (crc32_Update 0 tag) b = ChecksumIEEE (tag @ b)"
  by (simp add: ChecksumIEEE_def crc32_Update_append)

lemma unat_length_uint32:
  "unat (word_of_nat n :: uint32) = n \<longleftrightarrow> n < 2 ^ 32"
  by (simp add: unat_of_nat mod_less_eq_dividend mod_eq_self_iff_div_eq_0 div_eq_0_iff)

lemma Uint32_writeUint32_only [simp]: "Uint32 (writeUint32 u) = u"
  using Uint32_writeUint32 [of u "[]"] by simp

lemma writeChunk_pending [simp]:
  "err e \<noteq> None \<Longrightarrow> writeChunk wr (w, e) b name = (w, e)"
  by (simp add: writeChunk_def)

lemma writeChunk_cases:
  assumes "err e = None" and "length b < 2 ^ 32" and "length name = 4"
  defines "hdr \<equiv> writeUint32 (word_of_nat (length b)) @ bytes_of name"
    and "ftr \<equiv> writeUint32 (ChecksumIEEE (bytes_of name @ b))"
  shows "writeChunk wr (w, e) b name =
     (if wr w hdr \<noteq> None then (w @ [hdr], e\<lparr>err := wr w hdr\<rparr>)
      else if wr (w @ [hdr]) b \<noteq> None then (w @ [hdr, b], e\<lparr>err := wr (w @ [hdr]) b\<rparr>)
      else (w @ [hdr, b, ftr], e\<lparr>err := wr (w @ [hdr, b]) ftr\<rparr>))"
  using assms(1-3) unfolding hdr_def ftr_def
  by (simp add: writeChunk_def Write_def Let_def crc32_two_writes unat_length_uint32)

section \<open>Facts about writing into a buffer\<close>

lemma unat_word_of_nat_uint32 [simp]:
  "n < 4294967296 \<Longrightarrow> unat (word_of_nat n :: uint32) = n"
  using unat_length_uint32 [of n] by simp

lemma encoder_err_None [simp]: "err e = None \<Longrightarrow> e\<lparr>err := None\<rparr> = e"
  by (cases e) simp

lemma writeChunk_buffer:
  assumes "err e = None" and "length b < 2 ^ 32" and "length name = 4"
  shows "writeChunk bufferWriter (w, e) b name =
     (w @ [writeUint32 (word_of_nat (length b)) @ bytes_of name, b,
           writeUint32 (ChecksumIEEE (bytes_of name @ b))], e)"
  using assms by (simp add: writeChunk_cases bufferWriter_def)

lemma writeIDATs_loop_buffer:
  assumes "err e = None" and "\<forall>d\<in>set ds. length d < 2 ^ 32"
  shows "err (snd (writeIDATs_loop bufferWriter ds (w, e))) = None
    \<and> concat (fst (writeIDATs_loop bufferWriter ds (w, e)))
        = concat w @ concat (map (chunk_layout ''IDAT'') ds)
    \<and> snd (writeIDATs_loop bufferWriter ds (w, e)) = e"
  using assms
proof (induction ds arbitrary: w)
  case Nil
  then show ?case by simp
next
  case (Cons d ds)
  then show ?case
    by (simp add: writeChunk_buffer chunk_layout_def)
qed

lemma writeChunk_buffer_concat:
  assumes "err e = None" and "length b < 2 ^ 32" and "length name = 4"
  shows "snd (writeChunk bufferWriter (w, e) b name) = e
     \<and> concat (fst (writeChunk bufferWriter (w, e) b name)) = concat w @ chunk_layout name b"
  using assms by (simp add: writeChunk_buffer chunk_layout_def)

lemma reassemble_stream:
  assumes "length h < 2 ^ 32" and "\<forall>d\<in>set ds. length d < 2 ^ 32"
  shows "reassemble \<lparr>pc_ihdr = h, pc_idats = ds\<rparr> =
     Some (png_stream ((''IHDR'', h) # map (Pair ''IDAT'') ds @ [(''IEND'', [])]))"
proof -
  define e where "e = \<lparr>seqNum = 0, ihdr = h, idats = ds, err = None\<rparr>"
  have e: "err e = None" "ihdr e = h" "idats e = ds"
    by (simp_all add: e_def)
  obtain w1 e1 where 1: "writeIHDR bufferWriter ([pngHeader], e) = (w1, e1)"
    by (cases "writeIHDR bufferWriter ([pngHeader], e)")
  from writeChunk_buffer_concat [OF e(1) assms(1), of "''IHDR''" "[pngHeader]"] 1 e
  have e1: "e1 = e" and w1: "concat w1 = pngHeader @ chunk_layout ''IHDR'' h"
    by (simp_all add: writeIHDR_def)
  obtain w2 e2 where 2: "writeIDATs bufferWriter (w1, e) = (w2, e2)"
    by (cases "writeIDATs bufferWriter (w1, e)")
  from writeIDATs_loop_buffer [OF e(1) assms(2), of w1] 2 e
  have e2: "e2 = e" and w2: "concat w2 = concat w1 @ concat (map (chunk_layout ''IDAT'') ds)"
    by (simp_all add: writeIDATs_def)
  obtain w3 e3 where 3: "writeIEND bufferWriter (w2, e) = (w3, e3)"
    by (cases "writeIEND bufferWriter (w2, e)")
  from writeChunk_buffer_concat [OF e(1), of "[]" "''IEND''" w2] 3
  have e3: "e3 = e" and w3: "concat w3 = concat w2 @ chunk_layout ''IEND'' []"
    by (simp_all add: writeIEND_def)
  show ?thesis
    using 1 2 3 e e1 e2 e3 w1 w2 w3
    by (simp add: reassemble_def Write_def bufferWriter_def e_def [symmetric] png_stream_def
        comp_def)
qed


section \<open>Facts about the chunk reader\<close>

declare fetchLoop.simps [simp del]

lemma io_ReadFull_enough [simp]:
  "n \<le> length buf \<Longrightarrow> io_ReadFull buf n = (take n buf, drop n buf, None)"
  by (simp add: io_ReadFull_def)

lemma tags_distinct [simp]:
  "bytes_of ''PLTE'' \<noteq> bytes_of ''IHDR''" "bytes_of ''tRNS'' \<noteq> bytes_of ''IHDR''"
  "bytes_of ''tRNS'' \<noteq> bytes_of ''PLTE''"
  "bytes_of ''IDAT'' \<noteq> bytes_of ''IHDR''" "bytes_of ''IDAT'' \<noteq> bytes_of ''PLTE''"
  "bytes_of ''IDAT'' \<noteq> bytes_of ''tRNS''"
  "bytes_of ''IEND'' \<noteq> bytes_of ''IHDR''" "bytes_of ''IEND'' \<noteq> bytes_of ''PLTE''"
  "bytes_of ''IEND'' \<noteq> bytes_of ''tRNS''" "bytes_of ''IEND'' \<noteq> bytes_of ''IDAT''"
  by (simp_all add: bytes_of_def)

lemma parsePNGChunk_prefix:
  assumes "length tag = 4"
  shows "parsePNGChunk \<lparr>bb = writeUint32 n @ tag @ rest, stage = st, pc = p\<rparr> =
     (let c0 = \<lparr>bb = rest, stage = st, pc = p\<rparr>;
          res =
              (if tag = bytes_of ''IHDR'' then parseIHDR (c0\<lparr>stage := dsSeenIHDR\<rparr>) n
               else if tag = bytes_of ''PLTE'' then Return (c0, None)
               else if tag = bytes_of ''tRNS'' then Return (c0, None)
               else if tag = bytes_of ''IDAT'' then
                 Return (parseIDAT (c0\<lparr>stage := dsSeenIDAT\<rparr>) n)
               else if tag = bytes_of ''IEND'' then
                 Return (parseIEND (c0\<lparr>stage := dsSeenIEND\<rparr>) n)
               else Return (c0, None))
        in case res of
             Panic \<Rightarrow> Panic
           | Return (c1, e) \<Rightarrow> Return (c1\<lparr>bb := drop 4 (bb c1)\<rparr>, e))"
  using assms by (simp add: parsePNGChunk_def Let_def Buffer_Next_def)

lemma parsePNGChunk_IHDR:
  assumes "unat n = length payload" and "unat n \<le> chunkFetcher_tmp_len" and "length crc = 4"
  shows "parsePNGChunk \<lparr>bb = writeUint32 n @ bytes_of ''IHDR'' @ payload @ crc @ rest, stage = st, pc = p\<rparr>
    = Return (\<lparr>bb = rest, stage = dsSeenIHDR, pc = p\<lparr>pc_ihdr := payload\<rparr>\<rparr>, None)"
  using assms by (simp add: parsePNGChunk_prefix parseIHDR_def Let_def)

lemma parsePNGChunk_IDAT:
  assumes "unat n = length payload" and "length crc = 4"
  shows "parsePNGChunk \<lparr>bb = writeUint32 n @ bytes_of ''IDAT'' @ payload @ crc @ rest, stage = st, pc = p\<rparr>
    = Return (\<lparr>bb = rest, stage = dsSeenIDAT, pc = p\<lparr>pc_idats := pc_idats p @ [payload]\<rparr>\<rparr>, None)"
  using assms by (simp add: parsePNGChunk_prefix parseIDAT_def Let_def Buffer_Next_def)

lemma parsePNGChunk_IEND:
  shows "parsePNGChunk \<lparr>bb = writeUint32 n @ bytes_of ''IEND'' @ rest, stage = st, pc = p\<rparr>
    = Return (\<lparr>bb = drop 4 rest, stage = dsSeenIEND, pc = p\<rparr>, None)"
  by (simp add: parsePNGChunk_prefix parseIEND_def Let_def)

lemma parsePNGChunk_PLTE:
  shows "parsePNGChunk \<lparr>bb = writeUint32 n @ bytes_of ''PLTE'' @ rest, stage = st, pc = p\<rparr>
    = Return (\<lparr>bb = drop 4 rest, stage = st, pc = p\<rparr>, None)"
  by (simp add: parsePNGChunk_prefix Let_def)

lemma parsePNGChunk_tRNS:
  shows "parsePNGChunk \<lparr>bb = writeUint32 n @ bytes_of ''tRNS'' @ rest, stage = st, pc = p\<rparr>
    = Return (\<lparr>bb = drop 4 rest, stage = st, pc = p\<rparr>, None)"
  by (simp add: parsePNGChunk_prefix Let_def)

lemma parseIHDR_Panic_iff: "parseIHDR c len = Panic \<longleftrightarrow> chunkFetcher_tmp_len < unat len"
  by (simp add: parseIHDR_def Let_def split: prod.splits)

lemmas reader_eval = pngHeader_def 
     Buffer_Next_def bytes_of_def parsePNGChunk_def Let_def io_ReadFull_def
     parseIHDR_def parseIDAT_def parseIEND_def chunkFetcher_tmp_len_def Uint32_def

lemma fetchLoop_done: "stage c = dsSeenIEND \<Longrightarrow> fetchLoop c = Return (Inr (pc c))"
  by (simp add: fetchLoop.simps)

lemma fetchLoop_next:
  "stage c \<noteq> dsSeenIEND \<Longrightarrow> parsePNGChunk c = Return (c', None) \<Longrightarrow> fetchLoop c = fetchLoop c'"
  by (subst fetchLoop.simps) simp

lemma fetchLoop_error:
  "stage c \<noteq> dsSeenIEND \<Longrightarrow> parsePNGChunk c = Return (c', Some e) \<Longrightarrow>
   fetchLoop c = Return (Inl (if e = EOF then ErrUnexpectedEOF else e))"
  by (subst fetchLoop.simps) simp

lemma fetchLoop_panic:
  "stage c \<noteq> dsSeenIEND \<Longrightarrow> parsePNGChunk c = Panic \<Longrightarrow> fetchLoop c = Panic"
  by (subst fetchLoop.simps) simp

lemma fetchLoop_IDATs:
  assumes "\<forall>d\<in>set ds. length d < 2 ^ 32" and "st \<noteq> dsSeenIEND"
  shows "fetchLoop \<lparr>bb = concat (map (chunk_layout ''IDAT'') ds) @ chunk_layout ''IEND'' [] @ rest,
            stage = st, pc = p\<rparr>
         = Return (Inr (p\<lparr>pc_idats := pc_idats p @ ds\<rparr>))"
  using assms
proof (induction ds arbitrary: st p)
  case Nil
  have "parsePNGChunk \<lparr>bb = chunk_layout ''IEND'' [] @ rest, stage = st, pc = p\<rparr>
      = Return (\<lparr>bb = rest, stage = dsSeenIEND, pc = p\<rparr>, None)"
    by (simp add: chunk_layout_def parsePNGChunk_IEND)
  with Nil show ?case
    by (simp add: fetchLoop_next fetchLoop_done)
next
  case (Cons d ds)
  have "parsePNGChunk \<lparr>bb = chunk_layout ''IDAT'' d
           @ concat (map (chunk_layout ''IDAT'') ds) @ chunk_layout ''IEND'' [] @ rest,
          stage = st, pc = p\<rparr>
      = Return (\<lparr>bb = concat (map (chunk_layout ''IDAT'') ds) @ chunk_layout ''IEND'' [] @ rest,
          stage = dsSeenIDAT, pc = p\<lparr>pc_idats := pc_idats p @ [d]\<rparr>\<rparr>, None)"
    using Cons.prems(1)
    by (simp add: chunk_layout_def parsePNGChunk_IDAT)
  with Cons show ?case
    by (simp add: fetchLoop_next)
qed

lemma fetchPNGChunk_stream:
  assumes "length h \<le> 768" and "\<forall>d\<in>set ds. length d < 2 ^ 32"
  shows "fetchPNGChunk (png_stream ((''IHDR'', h) # map (Pair ''IDAT'') ds @ [(''IEND'', [])]))
     = Return (Inr \<lparr>pc_ihdr = h, pc_idats = ds\<rparr>)"
proof -
  have "parsePNGChunk \<lparr>bb = chunk_layout ''IHDR'' h
           @ concat (map (chunk_layout ''IDAT'') ds) @ chunk_layout ''IEND'' [] @ [],
          stage = dsStart, pc = \<lparr>pc_ihdr = [], pc_idats = []\<rparr>\<rparr>
      = Return (\<lparr>bb = concat (map (chunk_layout ''IDAT'') ds) @ chunk_layout ''IEND'' [] @ [],
          stage = dsSeenIHDR, pc = \<lparr>pc_ihdr = h, pc_idats = []\<rparr>\<rparr>, None)"
    using assms(1)
    by (simp add: chunk_layout_def parsePNGChunk_IHDR chunkFetcher_tmp_len_def)
  then show ?thesis
    using fetchLoop_IDATs [OF assms(2), of dsSeenIHDR "[]" "\<lparr>pc_ihdr = h, pc_idats = []\<rparr>"]
    by (simp add: fetchPNGChunk_def png_stream_def Buffer_Next_def comp_def fetchLoop_next)
qed

lemma parsePNGChunk_errors:
  "parsePNGChunk c = Return (c', Some e) \<Longrightarrow> e = EOF \<or> e = ErrUnexpectedEOF"
  by (auto simp add: parsePNGChunk_def parseIHDR_def parseIDAT_def parseIEND_def
      io_ReadFull_def Buffer_Next_def Let_def
      split: if_splits prod.splits outcome.splits)

lemma fetchLoop_errors: "fetchLoop c = Return (Inl e) \<Longrightarrow> e = ErrUnexpectedEOF"
proof (induction c rule: fetchLoop.induct)
  case (1 c)
  show ?case
  proof (cases "stage c = dsSeenIEND")
    case True
    with "1.prems" show ?thesis
      by (simp add: fetchLoop_done)
  next
    case False
    show ?thesis
    proof (cases "parsePNGChunk c")
      case Panic
      with False "1.prems" show ?thesis
        by (simp add: fetchLoop_panic)
    next
      case (Return x)
      obtain c' r where x: "x = (c', r)"
        by (cases x)
      show ?thesis
      proof (cases r)
        case None
        with False Return x have "fetchLoop c = fetchLoop c'"
          by (simp add: fetchLoop_next)
        with "1.IH" [OF False Return x [symmetric] None] "1.prems" show ?thesis
          by simp
      next
        case (Some e')
        with False Return x
        have "fetchLoop c = Return (Inl (if e' = EOF then ErrUnexpectedEOF else e'))"
          by (simp add: fetchLoop_error)
        moreover from Return x Some have "e' = EOF \<or> e' = ErrUnexpectedEOF"
          using parsePNGChunk_errors by simp
        ultimately show ?thesis
          using "1.prems" by auto
      qed
    qed
  qed
qed

lemma fetchLoop_short_prefix:
  assumes "st \<noteq> dsSeenIEND" and "length b < 8"
  shows "fetchLoop \<lparr>bb = b, stage = st, pc = p\<rparr> = Return (Inl ErrUnexpectedEOF)"
proof -
  have "\<exists>c' e. parsePNGChunk \<lparr>bb = b, stage = st, pc = p\<rparr> = Return (c', Some e)
      \<and> (e = EOF \<or> e = ErrUnexpectedEOF)"
    using assms(2) by (simp add: parsePNGChunk_def io_ReadFull_def)
  then show ?thesis
    using assms(1) by (auto simp add: fetchLoop_error)
qed

lemma fetchLoop_short_IDAT:
  assumes "st \<noteq> dsSeenIEND" and "length rest < unat n"
  shows "fetchLoop \<lparr>bb = writeUint32 n @ bytes_of ''IDAT'' @ rest, stage = st, pc = p\<rparr>
     = Return (Inl ErrUnexpectedEOF)"
proof -
  have "\<exists>c'. parsePNGChunk \<lparr>bb = writeUint32 n @ bytes_of ''IDAT'' @ rest, stage = st, pc = p\<rparr>
      = Return (c', Some EOF)"
    using assms(2) by (simp add: parsePNGChunk_prefix parseIDAT_def Buffer_Next_def Let_def)
  then show ?thesis
    using assms(1) by (auto simp add: fetchLoop_error)
qed

lemma fetchLoop_short_IHDR:
  assumes "st \<noteq> dsSeenIEND" and "length rest < unat n" and "unat n \<le> 768"
  shows "fetchLoop \<lparr>bb = writeUint32 n @ bytes_of ''IHDR'' @ rest, stage = st, pc = p\<rparr>
     = Return (Inl ErrUnexpectedEOF)"
proof -
  have "\<exists>c' e. parsePNGChunk \<lparr>bb = writeUint32 n @ bytes_of ''IHDR'' @ rest, stage = st, pc = p\<rparr>
      = Return (c', Some e) \<and> (e = EOF \<or> e = ErrUnexpectedEOF)"
    using assms(2,3)
    by (simp add: parsePNGChunk_prefix parseIHDR_def io_ReadFull_def Let_def
        chunkFetcher_tmp_len_def)
  then show ?thesis
    using assms(1) by (auto simp add: fetchLoop_error)
qed

lemma paletted_png_fetch: "fetchPNGChunk paletted_png = Return (Inl ErrUnexpectedEOF)"
  apply (simp add: paletted_png_def png_stream_def chunk_layout_def fetchPNGChunk_def
      writeUint32_def reader_eval)
  apply (subst fetchLoop.simps, simp add: reader_eval)
  apply (subst fetchLoop.simps, simp add: reader_eval)
  apply (subst fetchLoop.simps, simp add: reader_eval)
  apply (subst fetchLoop.simps, simp add: reader_eval)
  apply (subst fetchLoop.simps, simp add: reader_eval)
  apply (subst fetchLoop.simps, simp add: reader_eval)
  done

lemma truncated_png_fetch: "fetchPNGChunk truncated_png = Return (Inl ErrUnexpectedEOF)"
  apply (simp add: truncated_png_def rgba_ihdr_def chunk_layout_def fetchPNGChunk_def
      writeUint32_def reader_eval)
  apply (subst fetchLoop.simps, simp add: reader_eval)
  apply (subst fetchLoop.simps, simp add: reader_eval)
  done

lemma no_trailer_png_fetch: "fetchPNGChunk no_trailer_png = Return (Inl ErrUnexpectedEOF)"
  apply (simp add: no_trailer_png_def rgba_ihdr_def rgba_idat_def chunk_layout_def
      fetchPNGChunk_def writeUint32_def reader_eval)
  apply (subst fetchLoop.simps, simp add: reader_eval)
  apply (subst fetchLoop.simps, simp add: reader_eval)
  apply (subst fetchLoop.simps, simp add: reader_eval)
  done

section \<open>Facts about the encoder\<close>

lemma writeChunk_unfold:
  assumes "err e = None"
  shows "writeChunk wr (w, e) b name =
     (if \<not> length b < 2 ^ 32 then (w, e\<lparr>err := Some ErrChunkTooLarge\<rparr>)
      else
        let hdr = writeUint32 (word_of_nat (length b)) @ bytes_of (take 4 name);
            ftr = writeUint32 (ChecksumIEEE (bytes_of (take 4 name) @ b))
        in if wr w hdr \<noteq> None then (w @ [hdr], e\<lparr>err := wr w hdr\<rparr>)
           else if wr (w @ [hdr]) b \<noteq> None then (w @ [hdr, b], e\<lparr>err := wr (w @ [hdr]) b\<rparr>)
           else (w @ [hdr, b, ftr], e\<lparr>err := wr (w @ [hdr, b]) ftr\<rparr>))"
  using assms
  by (simp add: writeChunk_def Write_def Let_def crc32_two_writes unat_length_uint32)

lemma writeChunk_extends: "\<exists>ws. fst (writeChunk wr (w, e) b name) = w @ ws"
  by (cases "err e") (auto simp add: writeChunk_unfold Let_def)

lemma writefcTL_Some:
  assumes "i < length (Image a)" and "Image a ! i = Some img" and "i < length (Delay a)"
  shows "writefcTL wr a i (w, e) =
     (case writeChunk wr (w, e) (fcTL_payload (seqNum e) img (Delay a ! i)) ''fcTL'' of
        (w', e') \<Rightarrow> (w', Return (e'\<lparr>seqNum := seqNum e' + 1\<rparr>)))"
  using assms by (simp add: writefcTL_def fcTL_payload_def Let_def)

lemma writefcTL_Panic:
  assumes "\<not> (i < length (Image a) \<and> Image a ! i \<noteq> None \<and> i < length (Delay a))"
  shows "writefcTL wr a i (w, e) = (w, Panic)"
  using assms by (auto simp add: writefcTL_def split: option.splits)

text \<open>
  A property of the sink and the pending error that every \<^verbatim>\<open>writeChunk\<close> preserves holds
  throughout an encode call, whatever way the call ends.
\<close>

lemma writeIDATs_loop_invariant:
  assumes step: "\<And>w e b name. P w (err e) \<Longrightarrow>
      P (fst (writeChunk wr (w, e) b name)) (err (snd (writeChunk wr (w, e) b name)))"
    and "P (fst s) (err (snd s))"
  shows "P (fst (writeIDATs_loop wr ds s)) (err (snd (writeIDATs_loop wr ds s)))"
  using assms(2)
proof (induction ds arbitrary: s)
  case Nil
  then show ?case by simp
next
  case (Cons d ds)
  from step [of "fst s" "snd s" d "''IDAT''"] Cons.prems
  have "P (fst (writeChunk wr s d ''IDAT'')) (err (snd (writeChunk wr s d ''IDAT'')))"
    by simp
  then show ?case
    using Cons.IH by simp
qed

lemma writefdATs_loop_invariant:
  assumes step: "\<And>w e b name. P w (err e) \<Longrightarrow>
      P (fst (writeChunk wr (w, e) b name)) (err (snd (writeChunk wr (w, e) b name)))"
    and "P (fst s) (err (snd s))"
  shows "case writefdATs_loop wr ds s of
           (w', Panic) \<Rightarrow> \<exists>r. P w' r
         | (w', Return e') \<Rightarrow> P w' (err e')"
  using assms(2)
proof (induction ds arbitrary: s)
  case Nil
  then show ?case by simp
next
  case (Cons d ds)
  show ?case
  proof (cases "length d < 4")
    case True
    with Cons.prems show ?thesis by auto
  next
    case False
    obtain w' e' where wc: "writeChunk wr s (writeUint32 (seqNum (snd s)) @ d) ''fdAT'' = (w', e')"
      by (cases "writeChunk wr s (writeUint32 (seqNum (snd s)) @ d) ''fdAT''")
    from step [of "fst s" "snd s" "writeUint32 (seqNum (snd s)) @ d" "''fdAT''"] Cons.prems wc
    have "P w' (err e')"
      by simp
    then have "P (fst (w', e'\<lparr>seqNum := seqNum e' + 1\<rparr>)) (err (snd (w', e'\<lparr>seqNum := seqNum e' + 1\<rparr>)))"
      by simp
    from Cons.IH [OF this] False wc show ?thesis
      by simp
  qed
qed

lemma writefcTL_invariant:
  assumes step: "\<And>w e b name. P w (err e) \<Longrightarrow>
      P (fst (writeChunk wr (w, e) b name)) (err (snd (writeChunk wr (w, e) b name)))"
    and "P (fst s) (err (snd s))"
  shows "case writefcTL wr a i s of
           (w', Panic) \<Rightarrow> \<exists>r. P w' r
         | (w', Return e') \<Rightarrow> P w' (err e')"
proof -
  obtain w e where s: "s = (w, e)" by (cases s)
  show ?thesis
  proof (cases "i < length (Image a) \<and> Image a ! i \<noteq> None \<and> i < length (Delay a)")
    case True
    then obtain img where "Image a ! i = Some img" by auto
    with True step [of w e "fcTL_payload (seqNum e) img (Delay a ! i)" "''fcTL''"] assms(2)
    show ?thesis
      by (auto simp add: s writefcTL_Some split: prod.splits)
  next
    case False
    with assms(2) show ?thesis
      by (auto simp add: s writefcTL_Panic)
  qed
qed

lemma encodeFrames_invariant:
  assumes step: "\<And>w e b name. P w (err e) \<Longrightarrow>
      P (fst (writeChunk wr (w, e) b name)) (err (snd (writeChunk wr (w, e) b name)))"
    and "P (fst s) (err (snd s))"
  shows "case encodeFrames wr enc a i imgs s of
           (w', Panic) \<Rightarrow> \<exists>r. P w' r
         | (w', Return (e', early)) \<Rightarrow>
             P w' (err e')
             \<and> (\<forall>y. early = Some y \<longrightarrow>
                  (\<exists>img. Some img \<in> set imgs \<and> frame_payload enc img = Return (Inl y)))"
  using assms(2)
proof (induction imgs arbitrary: i s)
  case Nil
  then show ?case by simp
next
  case (Cons m imgs)
  show ?case
  proof (cases m)
    case None
    with Cons.prems show ?thesis by auto
  next
    case (Some img)
    show ?thesis
    proof (cases "enc img")
      case (Inl msg)
      with Some Cons.prems show ?thesis
        by (auto simp add: frame_payload_def)
    next
      case (Inr buf)
      show ?thesis
      proof (cases "fetchPNGChunk buf")
        case Panic
        with Some Inr Cons.prems show ?thesis by auto
      next
        case (Return x)
        show ?thesis
        proof (cases x)
          case (Inl e)
          with Some Inr Return Cons.prems show ?thesis
            by (auto simp add: frame_payload_def)
        next
          case (Inr p)
          define s1 where "s1 = (fst s, (snd s)\<lparr>ihdr := pc_ihdr p, idats := pc_idats p\<rparr>)"
          have s1: "P (fst s1) (err (snd s1))"
            using Cons.prems by (simp add: s1_def)
          show ?thesis
          proof (cases "i = 0")
            case True
            define s2 where "s2 = writeacTL wr a (writeIHDR wr s1)"
            have "P (fst (writeIHDR wr s1)) (err (snd (writeIHDR wr s1)))"
              using step [of "fst s1" "snd s1"] s1 by (simp add: writeIHDR_def)
            then have s2: "P (fst s2) (err (snd s2))"
              using step [of "fst (writeIHDR wr s1)" "snd (writeIHDR wr s1)"]
              by (simp add: s2_def writeacTL_def)
            obtain w3 o3 where fc: "writefcTL wr a i s2 = (w3, o3)"
              by (cases "writefcTL wr a i s2")
            show ?thesis
            proof (cases o3)
              case Panic
              with writefcTL_invariant [of P wr s2 a i, OF step s2] fc
              have "\<exists>r. P w3 r" by simp
              with Some \<open>enc img = Inr buf\<close> Return Inr True fc Panic show ?thesis
                by (simp add: s1_def s2_def)
            next
              case (Return e3)
              with writefcTL_invariant [of P wr s2 a i, OF step s2] fc
              have "P w3 (err e3)" by simp
              then have "P (fst (writeIDATs wr (w3, e3))) (err (snd (writeIDATs wr (w3, e3))))"
                using writeIDATs_loop_invariant [of P wr "(w3, e3)" "idats e3", OF step]
                by (simp add: writeIDATs_def)
              from Cons.IH [OF this, of "Suc i"]
              show ?thesis
                using Some \<open>enc img = Inr buf\<close> \<open>fetchPNGChunk buf = Return x\<close> Inr True fc Return
                by (auto simp add: s1_def s2_def split: outcome.splits prod.splits)
            qed
          next
            case False
            obtain w3 o3 where fc: "writefcTL wr a i s1 = (w3, o3)"
              by (cases "writefcTL wr a i s1")
            show ?thesis
            proof (cases o3)
              case Panic
              with writefcTL_invariant [of P wr s1 a i, OF step s1] fc
              have "\<exists>r. P w3 r" by simp
              with Some \<open>enc img = Inr buf\<close> Return Inr False fc Panic show ?thesis
                by (simp add: s1_def)
            next
              case (Return e3)
              with writefcTL_invariant [of P wr s1 a i, OF step s1] fc
              have p3: "P (fst (w3, e3)) (err (snd (w3, e3)))" by simp
              obtain w4 o4 where fd: "writefdATs wr (w3, e3) = (w4, o4)"
                by (cases "writefdATs wr (w3, e3)")
              show ?thesis
              proof (cases o4)
                case Panic
                with writefdATs_loop_invariant [of P wr "(w3, e3)" "idats e3", OF step p3] fd
                have "\<exists>r. P w4 r" by (simp add: writefdATs_def)
                with Some \<open>enc img = Inr buf\<close> \<open>fetchPNGChunk buf = Return x\<close> Inr False fc
                  Return fd Panic show ?thesis
                  by (simp add: s1_def)
              next
                case (Return e4)
                with writefdATs_loop_invariant [of P wr "(w3, e3)" "idats e3", OF step p3] fd
                have "P (fst (w4, e4)) (err (snd (w4, e4)))" by (simp add: writefdATs_def)
                from Cons.IH [OF this, of "Suc i"]
                show ?thesis
                  using Some \<open>enc img = Inr buf\<close> \<open>fetchPNGChunk buf = Return x\<close> Inr False fc
                    \<open>o3 = Return e3\<close> fd Return
                  by (auto simp add: s1_def split: outcome.splits prod.splits)
              qed
            qed
          qed
        qed
      qed
    qed
  qed
qed

lemma EncodeAll_rejected: "\<not> accepted a \<Longrightarrow> fst (EncodeAll wr enc a) = []"
  by (auto simp add: EncodeAll_def accepted_def split: outcome.splits bool.splits)

lemma EncodeAll_rejected_error:
  assumes "\<not> accepted a" and "isSameColorModel (Image a) \<noteq> Panic"
  shows "\<exists>e. EncodeAll wr enc a = ([], Return (Some e))"
  using assms
  by (auto simp add: EncodeAll_def accepted_def split: outcome.splits bool.splits)

lemma EncodeAll_accepted:
  assumes "accepted a"
  shows "EncodeAll wr enc a =
     (case encodeFrames wr enc a 0 (Image a)
             ([pngHeader], \<lparr>seqNum = 0, ihdr = [], idats = [], err = wr [] pngHeader\<rparr>) of
        (w', Panic) \<Rightarrow> (w', Panic)
      | (w', Return (e', Some early)) \<Rightarrow> (w', Return (Some early))
      | (w', Return (e', None)) \<Rightarrow>
          (fst (writeIEND wr (w', e')), Return (err (snd (writeIEND wr (w', e'))))))"
  using assms
  by (auto simp add: EncodeAll_def accepted_def Write_def Let_def
      split: outcome.splits prod.splits option.splits)

lemma EncodeAll_invariant:
  assumes step: "\<And>w e b name. P w (err e) \<Longrightarrow>
      P (fst (writeChunk wr (w, e) b name)) (err (snd (writeChunk wr (w, e) b name)))"
    and "accepted a" and "P [pngHeader] (wr [] pngHeader)"
  shows "case EncodeAll wr enc a of
           (w, Panic) \<Rightarrow> \<exists>r. P w r
         | (w, Return ro) \<Rightarrow>
             P w ro
             \<or> (\<exists>r. P w r) \<and> (\<exists>img y. Some img \<in> set (Image a)
                    \<and> frame_payload enc img = Return (Inl y) \<and> ro = Some y)"
proof -
  define s0 where "s0 = ([pngHeader], \<lparr>seqNum = 0, ihdr = [], idats = [], err = wr [] pngHeader\<rparr>)"
  have s0: "P (fst s0) (err (snd s0))"
    using assms(3) by (simp add: s0_def)
  obtain w1 o1 where ef: "encodeFrames wr enc a 0 (Image a) s0 = (w1, o1)"
    by (cases "encodeFrames wr enc a 0 (Image a) s0")
  note inv = encodeFrames_invariant [where P = P and wr = wr and s = s0 and enc = enc and a = a
      and i = 0 and imgs = "Image a", OF step s0]
  show ?thesis
  proof (cases o1)
    case Panic
    with inv ef show ?thesis
      by (simp add: EncodeAll_accepted [OF assms(2)] s0_def [symmetric])
  next
    case (Return x)
    obtain e1 early where x: "x = (e1, early)" by (cases x)
    show ?thesis
    proof (cases early)
      case None
      from inv ef Return x have "P w1 (err e1)" by simp
      from step [OF this, of "[]" "''IEND''"] ef Return x None show ?thesis
        by (simp add: EncodeAll_accepted [OF assms(2)] s0_def [symmetric] writeIEND_def)
    next
      case (Some y)
      with inv ef Return x show ?thesis
        by (auto simp add: EncodeAll_accepted [OF assms(2)] s0_def [symmetric])
    qed
  qed
qed

lemma EncodeAll_accepted_signature:
  assumes "accepted a"
  shows "\<exists>ws. fst (EncodeAll wr enc a) = pngHeader # ws"
proof -
  have step: "\<exists>ws. fst (writeChunk wr (w, e) b name) = pngHeader # ws"
    if "\<exists>ws. w = pngHeader # ws" for w e b name
    using that writeChunk_extends [of wr w e b name] by auto
  from EncodeAll_invariant [where P = "\<lambda>w r. \<exists>ws. w = pngHeader # ws" and wr = wr and enc = enc
      and a = a, OF step assms]
  show ?thesis
    by (cases "EncodeAll wr enc a") (auto split: outcome.splits)
qed

section \<open>Facts about the sink\<close>

lemma sink_ok_None: "sink_ok wr w None \<longleftrightarrow> all_accepted wr w"
  by (auto simp add: sink_ok_def all_accepted_def)

lemma all_accepted_sink_ok: "all_accepted wr w \<Longrightarrow> sink_ok wr w r"
  by (simp add: sink_ok_def all_accepted_def)

lemma sink_ok_snoc: "all_accepted wr w \<Longrightarrow> sink_ok wr (w @ [c]) (wr w c)"
  by (auto simp add: sink_ok_def all_accepted_def nth_append less_Suc_eq)

lemma all_accepted_snoc:
  "all_accepted wr w \<Longrightarrow> wr w c = None \<Longrightarrow> all_accepted wr (w @ [c])"
  by (auto simp add: all_accepted_def nth_append less_Suc_eq)

lemma sink_ok_writeChunk:
  assumes "sink_ok wr w (err e)"
  shows "sink_ok wr (fst (writeChunk wr (w, e) b name)) (err (snd (writeChunk wr (w, e) b name)))"
proof (cases "err e")
  case (Some x)
  with assms show ?thesis by simp
next
  case None
  with assms have acc: "all_accepted wr w"
    by (simp add: sink_ok_None)
  define hdr where "hdr = writeUint32 (word_of_nat (length b)) @ bytes_of (take 4 name)"
  define ftr where "ftr = writeUint32 (ChecksumIEEE (bytes_of (take 4 name) @ b))"
  have 1: "sink_ok wr (w @ [hdr]) (wr w hdr)"
    using acc by (rule sink_ok_snoc)
  have 2: "sink_ok wr (w @ [hdr, b]) (wr (w @ [hdr]) b)" if "wr w hdr = None"
    using sink_ok_snoc [OF all_accepted_snoc [OF acc that], of b] by simp
  have 3: "sink_ok wr (w @ [hdr, b, ftr]) (wr (w @ [hdr, b]) ftr)"
    if "wr w hdr = None" and "wr (w @ [hdr]) b = None"
    using sink_ok_snoc [OF all_accepted_snoc [OF all_accepted_snoc [OF acc that(1)]], of b ftr]
      that(2) by simp
  show ?thesis
    using None acc 1 2 3
    by (auto simp add: writeChunk_unfold Let_def hdr_def [symmetric] ftr_def [symmetric]
        all_accepted_sink_ok)
qed

section \<open>Facts about the validation\<close>

lemma model_neq_Return: "model_neq x y = Return b \<Longrightarrow> b = (x \<noteq> y)"
  by (cases x; cases y) (auto split: if_splits)

lemma isSameColorModel_loop_Return:
  assumes "isSameColorModel_loop reference imgs = Return b"
  shows "b = list_all (\<lambda>m. case m of None \<Rightarrow> False
                          | Some img \<Rightarrow> ColorModel img = reference) imgs"
  using assms
proof (induction imgs)
  case Nil
  then show ?case by simp
next
  case (Cons m imgs)
  show ?case
  proof (cases m)
    case None
    with Cons.prems show ?thesis by simp
  next
    case (Some img)
    show ?thesis
    proof (cases "model_neq (ColorModel img) reference")
      case Panic
      with Some Cons.prems show ?thesis by simp
    next
      case (Return differ)
      from model_neq_Return [OF Return] have d: "differ = (ColorModel img \<noteq> reference)" .
      show ?thesis
      proof (cases differ)
        case True
        with Some Return Cons.prems d show ?thesis by simp
      next
        case False
        with Some Return Cons.prems have "isSameColorModel_loop reference imgs = Return b"
          by simp
        from Cons.IH [OF this] Some d False show ?thesis by simp
      qed
    qed
  qed
qed

lemma fullfillFrameRegionConstraints_loop_list_all:
  "fullfillFrameRegionConstraints_loop reference imgs =
     list_all (\<lambda>m. case m of
                  None \<Rightarrow> False
                | Some img \<Rightarrow>
                    0 \<le> MinX (Bounds img) \<and> 0 \<le> MinY (Bounds img)
                    \<and> MaxX (Bounds img) \<le> MaxX reference
                    \<and> MaxY (Bounds img) \<le> MaxY reference) imgs"
proof (induction imgs)
  case Nil
  then show ?case by simp
next
  case (Cons m imgs)
  then show ?case
    by (cases m) (auto simp add: Let_def)
qed

lemma isSameColorModel_Return:
  assumes "isSameColorModel imgs = Return b"
  shows "b = (case imgs of
               [] \<Rightarrow> False
             | None # later \<Rightarrow> False
             | Some img0 # later \<Rightarrow>
                 list_all (\<lambda>m. case m of None \<Rightarrow> False
                              | Some img \<Rightarrow> ColorModel img = ColorModel img0) later)"
proof (cases imgs)
  case Nil
  with assms show ?thesis by (simp add: isSameColorModel_def)
next
  case (Cons m later)
  show ?thesis
  proof (cases m)
    case None
    with Cons assms show ?thesis by (simp add: isSameColorModel_def)
  next
    case (Some img0)
    with Cons assms have "isSameColorModel_loop (ColorModel img0) later = Return b"
      by (simp add: isSameColorModel_def)
    from isSameColorModel_loop_Return [OF this] Cons Some show ?thesis
      by simp
  qed
qed

lemma accepted_iff_validation_conditions:
  assumes "isSameColorModel (Image a) \<noteq> Panic"
  shows "accepted a \<longleftrightarrow> validation_conditions a"
proof -
  from assms obtain b where b: "isSameColorModel (Image a) = Return b"
    by (cases "isSameColorModel (Image a)") simp_all
  from isSameColorModel_Return [OF b] b show ?thesis
    by (auto simp add: accepted_def validation_conditions_def fullfillFrameRegionConstraints_def
        fullfillFrameRegionConstraints_loop_list_all Let_def
        split: list.splits option.splits)
qed

lemma writeacTL_Disposal [simp]: "writeacTL wr (a\<lparr>Disposal := d\<rparr>) = writeacTL wr a"
  by (rule ext) (simp add: writeacTL_def)

lemma writefcTL_Disposal [simp]: "writefcTL wr (a\<lparr>Disposal := d\<rparr>) = writefcTL wr a"
  by (rule ext)+ (simp add: writefcTL_def split: prod.splits option.splits)

lemma encodeFrames_Disposal [simp]:
  "encodeFrames wr enc (a\<lparr>Disposal := d\<rparr>) i imgs s = encodeFrames wr enc a i imgs s"
proof (induction imgs arbitrary: i s)
  case Nil
  then show ?case by simp
next
  case (Cons m imgs)
  then show ?case
    by (cases m) (simp_all add: Let_def split: sum.splits outcome.splits prod.splits)
qed

lemma EncodeAll_Disposal:
  assumes "Disposal a = Some d" and "length d' = length d"
  shows "EncodeAll wr enc (a\<lparr>Disposal := Some d'\<rparr>) = EncodeAll wr enc a"
  using assms
  by (simp add: EncodeAll_def Let_def split: outcome.splits bool.splits prod.splits)

text \<open>
  Whenever the comparison of the colour models does not panic, \<^verbatim>\<open>EncodeAll\<close> returns an
  error with nothing handed to the sink exactly when one of the structural conditions
  fails, and otherwise the first thing handed to the sink is the PNG signature.
\<close>

lemma EncodeAll_validation_unless_panic:
  assumes "isSameColorModel (Image a) \<noteq> Panic"
  shows "((\<exists>e. EncodeAll wr enc a = ([], Return (Some e))) \<longleftrightarrow> \<not> validation_conditions a)
     \<and> (validation_conditions a \<longrightarrow> (\<exists>ws. fst (EncodeAll wr enc a) = pngHeader # ws))"
proof (cases "accepted a")
  case True
  with EncodeAll_accepted_signature [OF True, of wr enc]
    accepted_iff_validation_conditions [OF assms]
  show ?thesis
    by auto
next
  case False
  with assms EncodeAll_rejected_error [of a wr enc]
    accepted_iff_validation_conditions [OF assms]
  show ?thesis
    by auto
qed

section \<open>Evaluating the examples\<close>

lemma rgba_png_fetch:
  "fetchPNGChunk rgba_png = Return (Inr \<lparr>pc_ihdr = rgba_ihdr, pc_idats = [rgba_idat]\<rparr>)"
  using fetchPNGChunk_stream [of rgba_ihdr "[rgba_idat]"]
  by (simp add: rgba_png_def png_stream_def rgba_ihdr_def rgba_idat_def)

lemmas encode_eval = EncodeAll_def isSameColorModel_def fullfillFrameRegionConstraints_def
  Write_def writeIHDR_def writeacTL_def writefcTL_def writeIDATs_def writefdATs_def
  writeIEND_def example_codec_def pixel_raster_def empty_raster_def rgba_png_fetch Let_def

section \<open>Facts about a successful encode call\<close>

text \<open>
  When a chunk write leaves no error pending, none was pending before, the payload length
  fits, and the sink has received exactly the layout of the chunk. The same, backwards
  through the steps of an encode call, for a call that returns \<^verbatim>\<open>nil\<close>.
\<close>

lemma wellsized_simps [simp]:
  "wellsized []"
  "wellsized ((name, payload) # cs) \<longleftrightarrow> length name = 4 \<and> length payload < 2 ^ 32 \<and> wellsized cs"
  "wellsized (cs @ cs') \<longleftrightarrow> wellsized cs \<and> wellsized cs'"
  by (auto simp add: wellsized_def)

lemma writeChunk_success:
  assumes "writeChunk wr (w, e) b name = (w', e')" and "err e' = None" and "length name = 4"
  shows "err e = None \<and> e' = e \<and> length b < 2 ^ 32
     \<and> concat w' = concat w @ chunk_layout name b"
proof (cases "err e")
  case (Some x)
  with assms show ?thesis by simp
next
  case None
  with assms show ?thesis
    by (auto simp add: writeChunk_unfold Let_def chunk_layout_def split: if_splits)
qed

lemma writeIDATs_loop_success:
  assumes "writeIDATs_loop wr ds (w, e) = (w', e')" and "err e' = None"
  shows "err e = None \<and> e' = e \<and> wellsized (map (Pair ''IDAT'') ds)
     \<and> concat w' = concat w @ layout (map (Pair ''IDAT'') ds)"
  using assms
proof (induction ds arbitrary: w e)
  case Nil
  then show ?case by simp
next
  case (Cons d ds)
  obtain w1 e1 where 1: "writeChunk wr (w, e) d ''IDAT'' = (w1, e1)"
    by (cases "writeChunk wr (w, e) d ''IDAT''")
  with Cons.prems have "writeIDATs_loop wr ds (w1, e1) = (w', e')"
    by simp
  from Cons.IH [OF this Cons.prems(2)]
  have 2: "err e1 = None" "e' = e1" "wellsized (map (Pair ''IDAT'') ds)"
    "concat w' = concat w1 @ layout (map (Pair ''IDAT'') ds)"
    by simp_all
  from writeChunk_success [OF 1 2(1)] 2 show ?case
    by simp
qed

lemma writefdATs_loop_success:
  assumes "writefdATs_loop wr ds (w, e) = (w', Return e')" and "err e' = None"
  shows "err e = None \<and> e' = e\<lparr>seqNum := seqNum e + word_of_nat (length ds)\<rparr>
     \<and> wellsized (fdAT_chunks (seqNum e) ds)
     \<and> concat w' = concat w @ layout (fdAT_chunks (seqNum e) ds)"
  using assms
proof (induction ds arbitrary: w e)
  case Nil
  then show ?case by simp
next
  case (Cons d ds)
  obtain w1 e1 where 1: "writeChunk wr (w, e) (writeUint32 (seqNum e) @ d) ''fdAT'' = (w1, e1)"
    by (cases "writeChunk wr (w, e) (writeUint32 (seqNum e) @ d) ''fdAT''")
  with Cons.prems have long: "\<not> length d < 4"
    and "writefdATs_loop wr ds (w1, e1\<lparr>seqNum := seqNum e1 + 1\<rparr>) = (w', Return e')"
    by (simp_all split: if_splits)
  from Cons.IH [OF this(2) Cons.prems(2)]
  have 2: "err e1 = None" "e' = e1\<lparr>seqNum := seqNum e1 + 1 + word_of_nat (length ds)\<rparr>"
    "wellsized (fdAT_chunks (seqNum e1 + 1) ds)"
    "concat w' = concat w1 @ layout (fdAT_chunks (seqNum e1 + 1) ds)"
    by simp_all
  from writeChunk_success [OF 1 2(1)] 2 show ?case
    by (simp add: add.assoc add.commute)
qed

lemma writefcTL_success:
  assumes "writefcTL wr a i (w, e) = (w', Return e')" and "err e' = None"
  shows "\<exists>img. i < length (Image a) \<and> Image a ! i = Some img \<and> i < length (Delay a)
     \<and> err e = None \<and> e' = e\<lparr>seqNum := seqNum e + 1\<rparr>
     \<and> length (fcTL_payload (seqNum e) img (Delay a ! i)) < 2 ^ 32
     \<and> concat w' = concat w @ chunk_layout ''fcTL'' (fcTL_payload (seqNum e) img (Delay a ! i))"
proof (cases "i < length (Image a) \<and> Image a ! i \<noteq> None \<and> i < length (Delay a)")
  case False
  with assms show ?thesis
    by (simp add: writefcTL_Panic)
next
  case True
  then obtain img where img: "Image a ! i = Some img"
    by auto
  obtain w1 e1 where 1: "writeChunk wr (w, e) (fcTL_payload (seqNum e) img (Delay a ! i)) ''fcTL''
      = (w1, e1)"
    by (cases "writeChunk wr (w, e) (fcTL_payload (seqNum e) img (Delay a ! i)) ''fcTL''")
  with True img assms have 2: "w' = w1" "e' = e1\<lparr>seqNum := seqNum e1 + 1\<rparr>" "err e1 = None"
    by (auto simp add: writefcTL_Some)
  from writeChunk_success [OF 1 2(3)] True img 2 show ?thesis
    by simp
qed

lemma drop_eq_Cons:
  assumes "drop i xs = y # ys"
  shows "i < length xs \<and> xs ! i = y \<and> drop (Suc i) xs = ys"
proof -
  from assms have i: "i < length xs"
    by (cases "i < length xs") simp_all
  from Cons_nth_drop_Suc [OF i] assms show ?thesis
    using i by simp
qed

lemma encodeFrames_later_success:
  assumes "encodeFrames wr enc a i imgs (w, e) = (w', Return (e', None))" and "err e' = None"
    and "0 < i" and "drop i (Image a) = imgs"
  shows "\<exists>fs. frames_from enc imgs (drop i (Delay a)) = Some fs \<and> length fs = length imgs
     \<and> err e = None
     \<and> wellsized (later_chunks (seqNum e) fs)
     \<and> concat w' = concat w @ layout (later_chunks (seqNum e) fs)"
  using assms
proof (induction imgs arbitrary: i w e)
  case Nil
  then show ?case by simp
next
  case (Cons m imgs)
  from drop_eq_Cons [OF Cons.prems(4)]
  have i: "i < length (Image a)" "Image a ! i = m" "drop (Suc i) (Image a) = imgs"
    by simp_all
  from Cons.prems(1) obtain img where m: "m = Some img"
    by (cases m) simp_all
  from Cons.prems(1) m obtain buf where buf: "enc img = Inr buf"
    by (cases "enc img") simp_all
  from Cons.prems(1) m buf obtain p where p: "fetchPNGChunk buf = Return (Inr p)"
    by (cases "fetchPNGChunk buf") (auto split: sum.splits)
  define e1 where "e1 = e\<lparr>ihdr := pc_ihdr p, idats := pc_idats p\<rparr>"
  obtain w3 o3 where fc: "writefcTL wr a i (w, e1) = (w3, o3)"
    by (cases "writefcTL wr a i (w, e1)")
  from Cons.prems(1,3) m buf p fc obtain e3 where o3: "o3 = Return e3"
    by (cases o3) (simp_all add: e1_def)
  obtain w4 o4 where fd: "writefdATs wr (w3, e3) = (w4, o4)"
    by (cases "writefdATs wr (w3, e3)")
  from Cons.prems(1,3) m buf p fc o3 fd obtain e4 where o4: "o4 = Return e4"
    by (cases o4) (simp_all add: e1_def)
  from Cons.prems(1,3) m buf p fc o3 fd o4
  have rest: "encodeFrames wr enc a (Suc i) imgs (w4, e4) = (w', Return (e', None))"
    by (simp add: e1_def)
  from Cons.IH [OF rest Cons.prems(2) _ i(3)]
  obtain fs where fs: "frames_from enc imgs (drop (Suc i) (Delay a)) = Some fs"
    "length fs = length imgs" "err e4 = None"
    "wellsized (later_chunks (seqNum e4) fs)"
    "concat w' = concat w4 @ layout (later_chunks (seqNum e4) fs)"
    by auto
  from writefdATs_loop_success [of wr "idats e3" w3 e3 w4 e4] fd o4 fs(3)
  have 4: "err e3 = None" "e4 = e3\<lparr>seqNum := seqNum e3 + word_of_nat (length (idats e3))\<rparr>"
    "wellsized (fdAT_chunks (seqNum e3) (idats e3))"
    "concat w4 = concat w3 @ layout (fdAT_chunks (seqNum e3) (idats e3))"
    by (simp_all add: writefdATs_def)
  from writefcTL_success [of wr a i w e1 w3 e3] fc o3 4(1) i(2) m
  have 3: "i < length (Delay a)" "err e1 = None" "e3 = e1\<lparr>seqNum := seqNum e1 + 1\<rparr>"
    "length (fcTL_payload (seqNum e1) img (Delay a ! i)) < 2 ^ 32"
    "concat w3 = concat w @ chunk_layout ''fcTL'' (fcTL_payload (seqNum e1) img (Delay a ! i))"
    by auto
  have delays: "drop i (Delay a) = Delay a ! i # drop (Suc i) (Delay a)"
    using Cons_nth_drop_Suc [OF 3(1)] by simp
  have payload: "frame_payload enc img = Return (Inr p)"
    using buf p by (simp add: frame_payload_def)
  have "frames_from enc (m # imgs) (drop i (Delay a)) = Some ((img, Delay a ! i, p) # fs)"
    using m delays payload fs(1) by simp
  moreover have "seqNum e4 = seqNum e + 1 + word_of_nat (length (pc_idats p))"
    and "seqNum e3 = seqNum e + 1" and "idats e3 = pc_idats p" and "seqNum e1 = seqNum e"
    using 3(3) 4(2) by (simp_all add: e1_def)
  ultimately show ?case
    using fs 3 4 by (simp add: e1_def)
qed

lemma EncodeAll_rejected_result:
  assumes "\<not> accepted a"
  shows "snd (EncodeAll wr enc a) \<noteq> Return None"
  using assms
  by (auto simp add: EncodeAll_def accepted_def split: outcome.splits bool.splits)

lemma EncodeAll_success:
  assumes "EncodeAll wr enc a = (w, Return None)"
  shows "\<exists>fs. frames_of enc a = Some fs \<and> length fs = length (Image a)
     \<and> wellsized (apng_chunks (length (Image a)) (LoopCount a) fs)
     \<and> concat w = png_stream (apng_chunks (length (Image a)) (LoopCount a) fs)"
proof -
  have acc: "accepted a"
    using assms EncodeAll_rejected_result [of a wr enc] by auto
  define e0 where "e0 = \<lparr>seqNum = 0, ihdr = [], idats = [], err = wr [] pngHeader\<rparr>"
  obtain w1 o1 where ef: "encodeFrames wr enc a 0 (Image a) ([pngHeader], e0) = (w1, o1)"
    by (cases "encodeFrames wr enc a 0 (Image a) ([pngHeader], e0)")
  have run: "(case o1 of
        Panic \<Rightarrow> (w1, Panic)
      | Return (e', Some early) \<Rightarrow> (w1, Return (Some early))
      | Return (e', None) \<Rightarrow>
          (fst (writeIEND wr (w1, e')), Return (err (snd (writeIEND wr (w1, e'))))))
      = (w, Return None)"
    using assms ef by (simp add: EncodeAll_accepted [OF acc] e0_def [symmetric])
  then obtain e1 where o1: "o1 = Return (e1, None)"
    by (cases o1) (auto split: option.splits)
  obtain e2 where iend: "writeIEND wr (w1, e1) = (w, e2)" and ok: "err e2 = None"
    using run o1 by (cases "writeIEND wr (w1, e1)") simp
  from writeChunk_success [of wr w1 e1 "[]" "''IEND''" w e2] iend ok
  have 6: "err e1 = None" "concat w = concat w1 @ chunk_layout ''IEND'' []"
    by (simp_all add: writeIEND_def)
  from acc obtain m later where imgs: "Image a = m # later"
    by (cases "Image a") (simp_all add: accepted_def)
  from acc imgs have "0 < length (Delay a)"
    by (cases "Delay a") (simp_all add: accepted_def)
  from Cons_nth_drop_Suc [OF this]
  have delays: "Delay a = Delay a ! 0 # drop (Suc 0) (Delay a)"
    by simp
  from ef o1 imgs obtain img where m: "m = Some img"
    by (cases m) simp_all
  from ef o1 imgs m obtain buf where buf: "enc img = Inr buf"
    by (cases "enc img") simp_all
  from ef o1 imgs m buf obtain p where p: "fetchPNGChunk buf = Return (Inr p)"
    by (cases "fetchPNGChunk buf") (auto split: sum.splits)
  define es where "es = e0\<lparr>ihdr := pc_ihdr p, idats := pc_idats p\<rparr>"
  obtain wa ea where a1: "writeIHDR wr ([pngHeader], es) = (wa, ea)"
    by (cases "writeIHDR wr ([pngHeader], es)")
  obtain wb eb where a2: "writeacTL wr a (wa, ea) = (wb, eb)"
    by (cases "writeacTL wr a (wa, ea)")
  obtain w3 o3 where a3: "writefcTL wr a 0 (wb, eb) = (w3, o3)"
    by (cases "writefcTL wr a 0 (wb, eb)")
  from ef o1 imgs m buf p a1 a2 a3 obtain e3 where o3: "o3 = Return e3"
    by (cases o3) (simp_all add: es_def)
  obtain w5 e5 where a5: "writeIDATs wr (w3, e3) = (w5, e5)"
    by (cases "writeIDATs wr (w3, e3)")
  from ef o1 imgs m buf p a1 a2 a3 o3 a5
  have rest: "encodeFrames wr enc a (Suc 0) later (w5, e5) = (w1, Return (e1, None))"
    by (simp add: es_def)
  from encodeFrames_later_success [OF rest 6(1)] imgs
  obtain fs where fs: "frames_from enc later (drop (Suc 0) (Delay a)) = Some fs"
    "length fs = length later" "err e5 = None"
    "wellsized (later_chunks (seqNum e5) fs)"
    "concat w1 = concat w5 @ layout (later_chunks (seqNum e5) fs)"
    by auto
  from writeIDATs_loop_success [of wr "idats e3" w3 e3 w5 e5] a5 fs(3)
  have 5: "err e3 = None" "e5 = e3" "wellsized (map (Pair ''IDAT'') (idats e3))"
    "concat w5 = concat w3 @ layout (map (Pair ''IDAT'') (idats e3))"
    by (simp_all add: writeIDATs_def)
  from writefcTL_success [of wr a 0 wb eb w3 e3] a3 o3 5(1) imgs m
  have 3: "err eb = None" "e3 = eb\<lparr>seqNum := seqNum eb + 1\<rparr>"
    "length (fcTL_payload (seqNum eb) img (Delay a ! 0)) < 2 ^ 32"
    "concat w3 = concat wb @ chunk_layout ''fcTL'' (fcTL_payload (seqNum eb) img (Delay a ! 0))"
    by auto
  from writeChunk_success [of wr wa ea _ "''acTL''" wb eb] a2 3(1)
  have 2: "err ea = None" "eb = ea"
    "length (writeUint32 (word_of_nat (length (Image a))) @ writeUint32 (LoopCount a)) < 2 ^ 32"
    "concat wb = concat wa @ chunk_layout ''acTL''
        (writeUint32 (word_of_nat (length (Image a))) @ writeUint32 (LoopCount a))"
    by (simp_all add: writeacTL_def)
  from writeChunk_success [of wr "[pngHeader]" es _ "''IHDR''" wa ea] a1 2(1)
  have 1: "ea = es" "length (pc_ihdr p) < 2 ^ 32"
    "concat wa = pngHeader @ chunk_layout ''IHDR'' (pc_ihdr p)"
    by (simp_all add: writeIHDR_def es_def)
  have payload: "frame_payload enc img = Return (Inr p)"
    using buf p by (simp add: frame_payload_def)
  have frames: "frames_of enc a = Some ((img, Delay a ! 0, p) # fs)"
    unfolding frames_of_def imgs m
    by (subst delays) (simp add: payload fs(1))
  have seqs: "seqNum eb = 0" "seqNum e5 = 1" "idats e3 = pc_idats p"
    using 1(1) 2(2) 3(2) 5(2) by (simp_all add: es_def e0_def)
  have sized: "wellsized (apng_chunks (length (Image a)) (LoopCount a) ((img, Delay a ! 0, p) # fs))"
    using 1(2) 2(3) 3(3) 5(3) fs(4) seqs by (simp add: apng_chunks_def)
  have stream: "concat w =
      png_stream (apng_chunks (length (Image a)) (LoopCount a) ((img, Delay a ! 0, p) # fs))"
    using 6(2) fs(5) 5(4) 3(4) 2(4) 1(3) seqs
    by (simp add: apng_chunks_def png_stream_def)
  from frames fs(2) imgs sized stream show ?thesis
    by simp
qed

section \<open>Facts about reading the output back\<close>

declare read_chunks.simps [simp del]

lemma read_chunks_Nil [simp]: "read_chunks [] = Some []"
  by (simp add: read_chunks.simps)

lemma writeUint32_not_Nil [simp]: "writeUint32 u \<noteq> []"
  by (simp add: writeUint32_def)

lemma read_chunks_chunk:
  assumes "length name = 4" and "length payload < 2 ^ 32"
  shows "read_chunks (chunk_layout name payload @ rest) =
     map_option (Cons (bytes_of name, payload)) (read_chunks rest)"
proof -
  have n: "unat (word_of_nat (length payload) :: uint32) = length payload"
    using assms(2) by simp
  show ?thesis
    using assms(1) n
    by (subst read_chunks.simps) (simp add: chunk_layout_def Let_def)
qed

lemma read_chunks_layout:
  assumes "wellsized cs"
  shows "read_chunks (layout cs) = Some (tagged cs)"
  using assms
proof (induction cs)
  case Nil
  then show ?case by (simp add: tagged_def)
next
  case (Cons c cs)
  obtain name payload where c: "c = (name, payload)" by (cases c)
  with Cons show ?case
    by (simp add: read_chunks_chunk tagged_def)
qed

lemma tagged_simps [simp]:
  "tagged [] = []"
  "tagged ((name, payload) # cs) = (bytes_of name, payload) # tagged cs"
  "tagged (cs @ cs') = tagged cs @ tagged cs'"
  by (simp_all add: tagged_def)

lemma seq_numbers_simps [simp]:
  "seq_numbers [] = []"
  "seq_numbers (cs @ cs') = seq_numbers cs @ seq_numbers cs'"
  "seq_numbers ((bytes_of ''fcTL'', payload) # cs) = Uint32 (take 4 payload) # seq_numbers cs"
  "seq_numbers ((bytes_of ''fdAT'', payload) # cs) = Uint32 (take 4 payload) # seq_numbers cs"
  "seq_numbers ((bytes_of ''IHDR'', payload) # cs) = seq_numbers cs"
  "seq_numbers ((bytes_of ''acTL'', payload) # cs) = seq_numbers cs"
  "seq_numbers ((bytes_of ''IDAT'', payload) # cs) = seq_numbers cs"
  "seq_numbers ((bytes_of ''IEND'', payload) # cs) = seq_numbers cs"
  by (simp_all add: seq_numbers_def bytes_of_def)

lemma take4_writeUint32 [simp]: "take 4 (writeUint32 u @ rest) = writeUint32 u"
  by simp

lemma Uint32_fcTL_payload [simp]: "Uint32 (take 4 (fcTL_payload seq img delay)) = seq"
  by (simp add: fcTL_payload_def)

lemma map_upt_add:
  "map f [0..<m + n] = map f [0..<m] @ map (\<lambda>j. f (m + j)) [0..<n]"
proof -
  have "[0..<m + n] = [0..<m] @ map (\<lambda>j. m + j) [0..<n]"
    by (induction n) simp_all
  then show ?thesis
    by (simp add: comp_def)
qed

lemma seq_numbers_IDATs [simp]: "seq_numbers (tagged (map (Pair ''IDAT'') ds)) = []"
  by (induction ds) simp_all

lemma seq_numbers_fdAT_chunks:
  "seq_numbers (tagged (fdAT_chunks seq ds)) = map (\<lambda>j. seq + word_of_nat j) [0..<length ds]"
proof (induction ds arbitrary: seq)
  case Nil
  then show ?case by simp
next
  case (Cons d ds)
  show ?case
    by (simp add: Cons.IH map_upt_Suc add.assoc del: upt_Suc)
qed

lemma stamped_simps [simp]:
  "stamped [] = 0"
  "stamped ((img, delay, p) # fs) = Suc (length (pc_idats p) + stamped fs)"
  by (simp_all add: stamped_def)

lemma seq_numbers_later_chunks:
  "seq_numbers (tagged (later_chunks seq fs)) = map (\<lambda>j. seq + word_of_nat j) [0..<stamped fs]"
proof (induction fs arbitrary: seq)
  case Nil
  then show ?case by simp
next
  case (Cons f fs)
  obtain img delay p where f: "f = (img, delay, p)" by (cases f)
  have "map (\<lambda>j. seq + word_of_nat j) [0..<Suc (length (pc_idats p) + stamped fs)]
      = seq # map (\<lambda>j. seq + 1 + word_of_nat j) [0..<length (pc_idats p)]
          @ map (\<lambda>j. seq + 1 + word_of_nat (length (pc_idats p)) + word_of_nat j) [0..<stamped fs]"
    by (simp add: map_upt_Suc map_upt_add add.assoc del: upt_Suc)
  then show ?case
    by (simp add: f Cons.IH seq_numbers_fdAT_chunks del: upt_Suc)
qed

lemma seq_numbers_apng_chunks:
  "seq_numbers (tagged (apng_chunks n loop (f # fs))) = map word_of_nat [0..<Suc (stamped fs)]"
proof -
  obtain img delay p where f: "f = (img, delay, p)" by (cases f)
  show ?thesis
    by (simp add: f apng_chunks_def seq_numbers_later_chunks map_upt_Suc del: upt_Suc)
qed

lemma unat_seq_numbers:
  assumes "n \<le> 2 ^ 32"
  shows "map unat (map word_of_nat [0..<n] :: uint32 list) = [0..<n]"
proof -
  have "unat (word_of_nat j :: uint32) = j" if "j \<in> set [0..<n]" for j
    using that assms by (simp add: unat_length_uint32)
  then have "map (\<lambda>j. unat (word_of_nat j :: uint32)) [0..<n] = map (\<lambda>j. j) [0..<n]"
    by (intro map_cong) simp_all
  then show ?thesis
    by (simp add: comp_def)
qed

lemma fcTL_payload_zeros:
  "length (fcTL_payload seq img delay) = 26 \<and> fcTL_payload seq img delay ! 24 = 0
     \<and> fcTL_payload seq img delay ! 25 = 0"
  by (simp add: fcTL_payload_def nth_append)

lemma fcTL_zeros_simps [simp]:
  "fcTL_zeros []"
  "fcTL_zeros (cs @ cs') \<longleftrightarrow> fcTL_zeros cs \<and> fcTL_zeros cs'"
  "fcTL_zeros ((bytes_of ''fcTL'', payload) # cs) \<longleftrightarrow>
     length payload = 26 \<and> payload ! 24 = 0 \<and> payload ! 25 = 0 \<and> fcTL_zeros cs"
  "fcTL_zeros ((bytes_of ''fdAT'', payload) # cs) \<longleftrightarrow> fcTL_zeros cs"
  "fcTL_zeros ((bytes_of ''IHDR'', payload) # cs) \<longleftrightarrow> fcTL_zeros cs"
  "fcTL_zeros ((bytes_of ''acTL'', payload) # cs) \<longleftrightarrow> fcTL_zeros cs"
  "fcTL_zeros ((bytes_of ''IDAT'', payload) # cs) \<longleftrightarrow> fcTL_zeros cs"
  "fcTL_zeros ((bytes_of ''IEND'', payload) # cs) \<longleftrightarrow> fcTL_zeros cs"
  by (simp_all add: fcTL_zeros_def bytes_of_def)

lemma fcTL_count_simps [simp]:
  "fcTL_count [] = 0"
  "fcTL_count (cs @ cs') = fcTL_count cs + fcTL_count cs'"
  "fcTL_count ((bytes_of ''fcTL'', payload) # cs) = Suc (fcTL_count cs)"
  "fcTL_count ((bytes_of ''fdAT'', payload) # cs) = fcTL_count cs"
  "fcTL_count ((bytes_of ''IHDR'', payload) # cs) = fcTL_count cs"
  "fcTL_count ((bytes_of ''acTL'', payload) # cs) = fcTL_count cs"
  "fcTL_count ((bytes_of ''IDAT'', payload) # cs) = fcTL_count cs"
  "fcTL_count ((bytes_of ''IEND'', payload) # cs) = fcTL_count cs"
  by (simp_all add: fcTL_count_def bytes_of_def)

lemma fcTL_IDATs [simp]:
  "fcTL_zeros (tagged (map (Pair ''IDAT'') ds))" "fcTL_count (tagged (map (Pair ''IDAT'') ds)) = 0"
  by (induction ds) simp_all

lemma fcTL_fdAT_chunks [simp]:
  "fcTL_zeros (tagged (fdAT_chunks seq ds))" "fcTL_count (tagged (fdAT_chunks seq ds)) = 0"
  by (induction ds arbitrary: seq) simp_all

lemma fcTL_later_chunks [simp]:
  "fcTL_zeros (tagged (later_chunks seq fs))" "fcTL_count (tagged (later_chunks seq fs)) = length fs"
  by (induction fs arbitrary: seq) (auto simp add: fcTL_payload_zeros)

lemma fcTL_apng_chunks:
  "fcTL_zeros (tagged (apng_chunks n loop fs))"
  "fs \<noteq> [] \<Longrightarrow> fcTL_count (tagged (apng_chunks n loop fs)) = length fs"
  by (auto simp add: apng_chunks_def fcTL_payload_zeros split: list.splits)

lemma EncodeAll_success_chunks:
  assumes "EncodeAll wr enc a = (w, Return None)"
  shows "\<exists>f fs. frames_of enc a = Some (f # fs) \<and> Suc (length fs) = length (Image a)
     \<and> read_chunks (drop 8 (concat w))
         = Some (tagged (apng_chunks (length (Image a)) (LoopCount a) (f # fs)))"
proof -
  from EncodeAll_success [OF assms]
  obtain fs0 where fs0: "frames_of enc a = Some fs0" "length fs0 = length (Image a)"
    "wellsized (apng_chunks (length (Image a)) (LoopCount a) fs0)"
    "concat w = png_stream (apng_chunks (length (Image a)) (LoopCount a) fs0)"
    by auto
  have "accepted a"
    using assms EncodeAll_rejected_result [of a wr enc] by auto
  with fs0(2) obtain f fs where "fs0 = f # fs"
    by (cases fs0) (simp_all add: accepted_def)
  with fs0 read_chunks_layout [OF fs0(3)] show ?thesis
    by (simp add: png_stream_def pngHeader_def)
qed

lemma writeChunk_seqNum: "seqNum (snd (writeChunk wr s b name)) = seqNum (snd s)"
  by (cases s) (simp add: writeChunk_def Write_def Let_def split: prod.splits)

lemma writefcTL_seqNum:
  assumes "writefcTL wr a i s = (w', Return e')"
  shows "seqNum e' = seqNum (snd s) + 1"
proof -
  obtain w e where s: "s = (w, e)" by (cases s)
  show ?thesis
  proof (cases "i < length (Image a) \<and> Image a ! i \<noteq> None \<and> i < length (Delay a)")
    case False
    with assms show ?thesis
      by (simp add: s writefcTL_Panic)
  next
    case True
    then obtain img where img: "Image a ! i = Some img"
      by auto
    obtain w1 e1 where 1: "writeChunk wr (w, e) (fcTL_payload (seqNum e) img (Delay a ! i)) ''fcTL''
        = (w1, e1)"
      by (cases "writeChunk wr (w, e) (fcTL_payload (seqNum e) img (Delay a ! i)) ''fcTL''")
    from writeChunk_seqNum [of wr "(w, e)" "fcTL_payload (seqNum e) img (Delay a ! i)" "''fcTL''"] 1
    have "seqNum e1 = seqNum e"
      by simp
    with True img assms 1 show ?thesis
      by (auto simp add: s writefcTL_Some)
  qed
qed

lemma writefdATs_loop_seqNum:
  assumes "writefdATs_loop wr ds s = (w', Return e')"
  shows "seqNum e' = seqNum (snd s) + word_of_nat (length ds)"
  using assms
proof (induction ds arbitrary: s)
  case Nil
  then show ?case by auto
next
  case (Cons d ds)
  obtain w1 e1 where 1: "writeChunk wr s (writeUint32 (seqNum (snd s)) @ d) ''fdAT'' = (w1, e1)"
    by (cases "writeChunk wr s (writeUint32 (seqNum (snd s)) @ d) ''fdAT''")
  with Cons.prems have "writefdATs_loop wr ds (w1, e1\<lparr>seqNum := seqNum e1 + 1\<rparr>) = (w', Return e')"
    by (simp split: if_splits)
  from Cons.IH [OF this] writeChunk_seqNum [of wr s "writeUint32 (seqNum (snd s)) @ d" "''fdAT''"] 1
  show ?case
    by (simp add: add.assoc add.commute)
qed

lemma two_pixels_run:
  "EncodeAll bufferWriter example_codec two_pixels
     = (fst (EncodeAll bufferWriter example_codec two_pixels), Return None)"
proof -
  have "snd (EncodeAll bufferWriter example_codec two_pixels) = Return None"
    by (simp add: encode_eval two_pixels_def writeChunk_buffer rgba_ihdr_def rgba_idat_def
        bufferWriter_def)
  then show ?thesis
    by (simp add: prod_eq_iff)
qed

lemma two_pixels_frames:
  "frames_of example_codec two_pixels =
     Some [(pixel_raster, 10, \<lparr>pc_ihdr = rgba_ihdr, pc_idats = [rgba_idat]\<rparr>),
           (pixel_raster, 20, \<lparr>pc_ihdr = rgba_ihdr, pc_idats = [rgba_idat]\<rparr>)]"
  by (simp add: frames_of_def two_pixels_def frame_payload_def example_codec_def
      rgba_png_fetch pixel_raster_def)

section \<open>C1: the byte stream of a successful encode call\<close>

text \<open>
  Claim C1. When \<^verbatim>\<open>EncodeAll\<close> returns \<^verbatim>\<open>nil\<close>, the animation has passed the validation,
  every frame has been encoded and decomposed, and the bytes handed to the sink are, in
  order: the PNG signature; the header chunk with the header payload extracted for frame
  0; the animation-control chunk with the frame count and the loop count; for frame 0 a
  frame-control chunk and one image-data chunk per extracted data payload; for each later
  frame in order a frame-control chunk and one frame-data chunk per extracted data
  payload; and the empty trailer chunk.
\<close>

theorem EncodeAll_stream:
  assumes "EncodeAll wr enc a = (w, Return None)"
  shows "accepted a
     \<and> (\<exists>fs. frames_of enc a = Some fs \<and> length fs = length (Image a)
          \<and> concat w = png_stream (apng_chunks (length (Image a)) (LoopCount a) fs))"
  using EncodeAll_success [OF assms] assms EncodeAll_rejected_result [of a wr enc]
  by auto

theorem EncodeAll_stream_witness:
  "EncodeAll bufferWriter example_codec two_pixels
     = (fst (EncodeAll bufferWriter example_codec two_pixels), Return None)
   \<and> accepted two_pixels
   \<and> concat (fst (EncodeAll bufferWriter example_codec two_pixels))
       = png_stream
          [(''IHDR'', rgba_ihdr), (''acTL'', writeUint32 2 @ writeUint32 3),
           (''fcTL'', fcTL_payload 0 pixel_raster 10), (''IDAT'', rgba_idat),
           (''fcTL'', fcTL_payload 1 pixel_raster 20), (''fdAT'', writeUint32 2 @ rgba_idat),
           (''IEND'', [])]"
  using EncodeAll_stream [OF two_pixels_run] two_pixels_run
  by (simp add: two_pixels_frames) (simp add: apng_chunks_def two_pixels_def)

section \<open>C2: the sequence numbers\<close>

text \<open>
  Claim C2. The file of a successful encode call, read back chunk by chunk, carries in its
  frame-control and frame-data chunks the sequence numbers 0, 1, 2, ... in file order: the
  k-th such chunk carries k as a 32-bit number, so there are no gaps, and no repeats as
  long as there are at most \<open>2 ^ 32\<close> of them. There is one number per frame and one per
  data payload of a later frame; the image-data chunks of frame 0 take none. In the
  encoder, no chunk write changes the counter, \<^verbatim>\<open>writefcTL\<close> leaves it one higher and
  \<^verbatim>\<open>writefdATs\<close> one higher per data payload, and nothing resets it.
\<close>

theorem sequence_numbers:
  assumes "EncodeAll wr enc a = (w, Return None)"
  shows "(\<exists>cs fs. read_chunks (drop 8 (concat w)) = Some cs \<and> frames_of enc a = Some fs
          \<and> seq_numbers cs = map word_of_nat [0..<length (seq_numbers cs)]
          \<and> length (seq_numbers cs)
              = length fs + sum_list (map (\<lambda>(img, delay, p). length (pc_idats p)) (tl fs))
          \<and> (length (seq_numbers cs) \<le> 2 ^ 32 \<longrightarrow>
               map unat (seq_numbers cs) = [0..<length (seq_numbers cs)]))
     \<and> seqNum (snd (writeChunk wr' s b name)) = seqNum (snd s)
     \<and> (writefcTL wr' a' i s = (w', Return e') \<longrightarrow> seqNum e' = seqNum (snd s) + 1)
     \<and> (writefdATs wr' s = (w', Return e') \<longrightarrow>
          seqNum e' = seqNum (snd s) + word_of_nat (length (idats (snd s))))"
proof -
  from EncodeAll_success_chunks [OF assms]
  obtain f fs where fs: "frames_of enc a = Some (f # fs)"
    "read_chunks (drop 8 (concat w))
       = Some (tagged (apng_chunks (length (Image a)) (LoopCount a) (f # fs)))"
    by auto
  define cs where "cs = tagged (apng_chunks (length (Image a)) (LoopCount a) (f # fs))"
  have seqs: "seq_numbers cs = map word_of_nat [0..<Suc (stamped fs)]"
    unfolding cs_def by (rule seq_numbers_apng_chunks)
  then have len: "length (seq_numbers cs) = Suc (stamped fs)"
    by simp
  have "seq_numbers cs = map word_of_nat [0..<length (seq_numbers cs)]"
    using seqs len by simp
  moreover have "length (seq_numbers cs)
      = length (f # fs) + sum_list (map (\<lambda>(img, delay, p). length (pc_idats p)) (tl (f # fs)))"
    using len by (simp add: stamped_def)
  moreover have "map unat (seq_numbers cs) = [0..<length (seq_numbers cs)]"
    if "length (seq_numbers cs) \<le> 2 ^ 32"
    using that unat_seq_numbers [of "Suc (stamped fs)"] seqs len by simp
  ultimately have "\<exists>cs fs. read_chunks (drop 8 (concat w)) = Some cs \<and> frames_of enc a = Some fs
          \<and> seq_numbers cs = map word_of_nat [0..<length (seq_numbers cs)]
          \<and> length (seq_numbers cs)
              = length fs + sum_list (map (\<lambda>(img, delay, p). length (pc_idats p)) (tl fs))
          \<and> (length (seq_numbers cs) \<le> 2 ^ 32 \<longrightarrow>
               map unat (seq_numbers cs) = [0..<length (seq_numbers cs)])"
    using fs unfolding cs_def [symmetric] by blast
  then show ?thesis
    using writefcTL_seqNum [of wr' a' i s w' e'] writefdATs_loop_seqNum [of wr' "idats (snd s)" s w' e']
    by (simp add: writefdATs_def writeChunk_seqNum)
qed

theorem sequence_numbers_witness:
  "EncodeAll bufferWriter example_codec two_pixels
     = (fst (EncodeAll bufferWriter example_codec two_pixels), Return None)
   \<and> (\<exists>cs. read_chunks (drop 8 (concat (fst (EncodeAll bufferWriter example_codec two_pixels))))
           = Some cs
         \<and> seq_numbers cs = [0, 1, 2])"
proof -
  from sequence_numbers [OF two_pixels_run]
  obtain cs fs where cs:
    "read_chunks (drop 8 (concat (fst (EncodeAll bufferWriter example_codec two_pixels)))) = Some cs"
    "frames_of example_codec two_pixels = Some fs"
    "seq_numbers cs = map word_of_nat [0..<length (seq_numbers cs)]"
    "length (seq_numbers cs)
       = length fs + sum_list (map (\<lambda>(img, delay, p). length (pc_idats p)) (tl fs))"
    by blast
  from cs(2) have "fs = [(pixel_raster, 10, \<lparr>pc_ihdr = rgba_ihdr, pc_idats = [rgba_idat]\<rparr>),
      (pixel_raster, 20, \<lparr>pc_ihdr = rgba_ihdr, pc_idats = [rgba_idat]\<rparr>)]"
    by (simp add: two_pixels_frames)
  with cs(4) have "length (seq_numbers cs) = 3"
    by simp
  with cs(3) have "seq_numbers cs = [0, 1, 2]"
    by (simp add: upt_rec)
  with cs(1) two_pixels_run show ?thesis
    by blast
qed

section \<open>C3: validation\<close>

text \<open>
  Claim C3 has \<^verbatim>\<open>EncodeAll\<close> return an error before anything is written exactly when a
  structural condition fails, and begin to write when all hold. \<^verbatim>\<open>isSameColorModel\<close>
  compares the colour models with Go's \<^verbatim>\<open>!=\<close> on interface values, which panics on two
  models of one uncomparable type. Two paletted frames of the same palette meet every
  condition of the claim, and the call panics in the validation: no error is returned and
  nothing is written. Two paletted frames of different palettes fail the condition on the
  colour models, and the call panics as well instead of returning the error.
\<close>

theorem EncodeAll_paletted_frames_panic:
  "validation_conditions two_paletted
   \<and> EncodeAll bufferWriter example_codec two_paletted = ([], Panic)
   \<and> \<not> validation_conditions two_palettes
   \<and> EncodeAll bufferWriter example_codec two_palettes = ([], Panic)"
  by (simp add: validation_conditions_def two_paletted_def two_palettes_def
      paletted_raster_def other_paletted_raster_def EncodeAll_def isSameColorModel_def)

section \<open>C4: the layout and checksum of an emitted chunk\<close>

text \<open>
  Claim C4. Every chunk goes out through \<^verbatim>\<open>writeChunk\<close>. When no error is pending and the
  payload length fits 32 bits, the call hands the sink, in this order and stopping at the
  first failure, the 8-byte prefix (the payload length big-endian, then the four tag
  bytes), the payload, and the four CRC bytes; when none of the three writes fails the
  bytes written are exactly the chunk layout of the specification. The length read back
  big-endian from the prefix is the payload length, and the trailer read back big-endian is
  the IEEE CRC-32 recomputed in one pass over tag and payload, although the writer computes
  it in two steps, tag first.
\<close>

theorem writeChunk_layout_crc:
  assumes "err e = None" and "length b < 2 ^ 32" and "length name = 4"
  shows "let hdr = writeUint32 (word_of_nat (length b)) @ bytes_of name;
             ftr = writeUint32 (ChecksumIEEE (bytes_of name @ b));
             s' = writeChunk wr (w, e) b name
         in (\<exists>k\<in>{1, 2, 3}. fst s' = w @ take k [hdr, b, ftr])
            \<and> (err (snd s') = None \<longrightarrow>
                 fst s' = w @ [hdr, b, ftr]
                 \<and> concat (fst s') = concat w @ chunk_layout name b)
            \<and> unat (Uint32 (take 4 hdr)) = length b
            \<and> drop 4 hdr = bytes_of name
            \<and> Uint32 ftr = ChecksumIEEE (bytes_of name @ b)"
  using assms
  by (simp add: writeChunk_cases Let_def chunk_layout_def unat_length_uint32)

theorem writeChunk_layout_crc_witness:
  "err fresh_encoder = None \<and> length ([] :: byte list) < 2 ^ 32 \<and> length ''IEND'' = 4
   \<and> err (snd (writeChunk bufferWriter ([pngHeader], fresh_encoder) [] ''IEND'')) = None
   \<and> (let hdr = writeUint32 (word_of_nat (length ([] :: byte list))) @ bytes_of ''IEND'';
             ftr = writeUint32 (ChecksumIEEE (bytes_of ''IEND'' @ []));
             s' = writeChunk bufferWriter ([pngHeader], fresh_encoder) [] ''IEND''
         in (\<exists>k\<in>{1, 2, 3}. fst s' = [pngHeader] @ take k [hdr, [], ftr])
            \<and> (err (snd s') = None \<longrightarrow>
                 fst s' = [pngHeader] @ [hdr, [], ftr]
                 \<and> concat (fst s') = concat [pngHeader] @ chunk_layout ''IEND'' [])
            \<and> unat (Uint32 (take 4 hdr)) = length ([] :: byte list)
            \<and> drop 4 hdr = bytes_of ''IEND''
            \<and> Uint32 ftr = ChecksumIEEE (bytes_of ''IEND'' @ []))"
proof -
  have "err (snd (writeChunk bufferWriter ([pngHeader], fresh_encoder) [] ''IEND'')) = None"
    by (simp add: writeChunk_cases fresh_encoder_def bufferWriter_def)
  then show ?thesis
    using writeChunk_layout_crc [of fresh_encoder "[]" "''IEND''" bufferWriter "[pngHeader]"]
    by (simp add: fresh_encoder_def)
qed

section \<open>C5: disposal and blend operations\<close>

text \<open>
  Claim C5. The file of a successful encode call has one frame-control chunk per frame,
  each of 26 payload bytes of which byte 24 (\<^verbatim>\<open>dispose_op\<close>) and byte 25 (\<^verbatim>\<open>blend_op\<close>) are
  zero. \<^verbatim>\<open>EncodeAll\<close> looks at the length of the disposal list only: replacing the list by
  another of the same length changes neither what the sink receives nor what the call
  returns, whether it succeeds or not.
\<close>

theorem dispose_and_blend_zero:
  "(EncodeAll wr enc a = (w, Return None) \<longrightarrow>
      (\<exists>cs. read_chunks (drop 8 (concat w)) = Some cs \<and> fcTL_count cs = length (Image a)
         \<and> fcTL_zeros cs))
   \<and> (Disposal a = Some d \<and> length d' = length d \<longrightarrow>
        EncodeAll wr enc (a\<lparr>Disposal := Some d'\<rparr>) = EncodeAll wr enc a)"
proof -
  have "\<exists>cs. read_chunks (drop 8 (concat w)) = Some cs \<and> fcTL_count cs = length (Image a)
         \<and> fcTL_zeros cs"
    if "EncodeAll wr enc a = (w, Return None)"
  proof -
    from EncodeAll_success_chunks [OF that]
    obtain f fs where fs: "Suc (length fs) = length (Image a)"
      "read_chunks (drop 8 (concat w))
         = Some (tagged (apng_chunks (length (Image a)) (LoopCount a) (f # fs)))"
      by auto
    with fcTL_apng_chunks [where n = "length (Image a)" and loop = "LoopCount a"
        and fs = "f # fs"]
    show ?thesis
      by simp
  qed
  then show ?thesis
    using EncodeAll_Disposal [of a d d' wr enc] by blast
qed

theorem dispose_and_blend_zero_witness:
  "EncodeAll bufferWriter example_codec two_pixels
     = (fst (EncodeAll bufferWriter example_codec two_pixels), Return None)
   \<and> (\<exists>cs. read_chunks (drop 8 (concat (fst (EncodeAll bufferWriter example_codec two_pixels))))
           = Some cs
         \<and> fcTL_count cs = 2 \<and> fcTL_zeros cs)
   \<and> Disposal two_pixels = Some [2, 1] \<and> length [0, 0 :: byte] = length [2, 1 :: byte]
   \<and> EncodeAll bufferWriter example_codec (two_pixels\<lparr>Disposal := Some [0, 0]\<rparr>)
       = EncodeAll bufferWriter example_codec two_pixels"
proof -
  have d: "Disposal two_pixels = Some [2, 1]" and n: "length (Image two_pixels) = 2"
    by (simp_all add: two_pixels_def)
  from dispose_and_blend_zero [of bufferWriter example_codec two_pixels
      "fst (EncodeAll bufferWriter example_codec two_pixels)" "[2, 1]" "[0, 0]"]
    two_pixels_run d n
  show ?thesis
    by simp
qed

section \<open>C6: after a failed write\<close>

text \<open>
  Claim C6, as amended. Whatever the sink does and however the call ends, a \<^verbatim>\<open>Write\<close> call
  that failed is the last call the sink received in that \<^verbatim>\<open>EncodeAll\<close> call: every later
  chunk write is suppressed. The call then returns exactly that error, unless it panics or
  a frame's standalone encoding or decomposition fails afterwards, in which case the loop
  returns that frame's error at once (the claim has the write error returned always).
\<close>

theorem first_write_error_is_last_write:
  assumes "EncodeAll wr enc a = (w, r)" and "k < length w"
    and "wr (take k w) (w ! k) = Some x"
  shows "Suc k = length w
     \<and> (r = Return (Some x) \<or> r = Panic
        \<or> (\<exists>img y. Some img \<in> set (Image a) \<and> frame_payload enc img = Return (Inl y)
              \<and> r = Return (Some y)))"
proof (cases "accepted a")
  case False
  with assms(1,2) EncodeAll_rejected [of a wr enc] show ?thesis
    by simp
next
  case True
  have init: "sink_ok wr [pngHeader] (wr [] pngHeader)"
    using sink_ok_snoc [of wr "[]" pngHeader] by (simp add: all_accepted_def)
  note inv = EncodeAll_invariant [where P = "sink_ok wr" and wr = wr and enc = enc, OF _ True init]
  have ok: "sink_ok wr w r' \<Longrightarrow> Suc k = length w \<and> r' = Some x" for r'
    using assms(2,3) by (simp add: sink_ok_def)
  show ?thesis
  proof (cases r)
    case Panic
    with inv [OF sink_ok_writeChunk] assms(1) ok show ?thesis
      by auto
  next
    case (Return ro)
    with inv [OF sink_ok_writeChunk] assms(1) ok show ?thesis
      by auto
  qed
qed

theorem first_write_error_is_last_write_witness:
  "EncodeAll (limitedWriter 8 (ErrSink 28)) example_codec one_frame
     = ([pngHeader, writeUint32 13 @ bytes_of ''IHDR''], Return (Some (ErrSink 28)))
   \<and> 1 < length [pngHeader, writeUint32 13 @ bytes_of ''IHDR'']
   \<and> limitedWriter 8 (ErrSink 28) (take 1 [pngHeader, writeUint32 13 @ bytes_of ''IHDR''])
        ([pngHeader, writeUint32 13 @ bytes_of ''IHDR''] ! 1) = Some (ErrSink 28)
   \<and> Suc 1 = length [pngHeader, writeUint32 13 @ bytes_of ''IHDR'']"
proof -
  have run: "EncodeAll (limitedWriter 8 (ErrSink 28)) example_codec one_frame
     = ([pngHeader, writeUint32 13 @ bytes_of ''IHDR''], Return (Some (ErrSink 28)))"
    by (simp add: encode_eval one_frame_def limitedWriter_def writeChunk_unfold
        rgba_ihdr_def pngHeader_def writeUint32_def bytes_of_def)
  have fails: "limitedWriter 8 (ErrSink 28) (take 1 [pngHeader, writeUint32 13 @ bytes_of ''IHDR''])
        ([pngHeader, writeUint32 13 @ bytes_of ''IHDR''] ! 1) = Some (ErrSink 28)"
    by (simp add: limitedWriter_def pngHeader_def writeUint32_def)
  from first_write_error_is_last_write [OF run _ fails] run fails show ?thesis
    by simp
qed

text \<open>
  The sink refuses the signature; frame 0 is encoded and its chunks are suppressed; the
  codec rejects frame 1, an empty raster, and its error is what the call returns.
\<close>

theorem later_frame_error_counterexample:
  "limitedWriter 0 (ErrSink 28) [] pngHeader = Some (ErrSink 28)
   \<and> EncodeAll (limitedWriter 0 (ErrSink 28)) example_codec pixel_then_empty
       = ([pngHeader], Return (Some (ErrPngEncoding ''png: invalid format: invalid image size'')))"
  by (simp add: encode_eval pixel_then_empty_def limitedWriter_def pngHeader_def)

section \<open>C7: decomposing and reassembling a standalone PNG\<close>

text \<open>
  Claim C7, as amended. The claim speaks of every standalone single-frame PNG buffer; the
  reader keeps the header and the data payloads only, so a buffer with any other chunk (a
  palette, say) does not come back. For a buffer that consists of the signature, a header
  chunk of at most 768 payload bytes, any number of data chunks and the empty trailer
  chunk, \<^verbatim>\<open>fetchPNGChunk\<close> returns the header payload and the data payloads in order, and
  writing them back with the encoder's own chunk writers reproduces the buffer byte for
  byte.
\<close>

theorem roundtrip_header_data_trailer:
  assumes "length h \<le> 768" and "\<forall>d\<in>set ds. length d < 2 ^ 32"
  shows "fetchPNGChunk (png_stream ((''IHDR'', h) # map (Pair ''IDAT'') ds @ [(''IEND'', [])]))
           = Return (Inr \<lparr>pc_ihdr = h, pc_idats = ds\<rparr>)
       \<and> roundtrip (png_stream ((''IHDR'', h) # map (Pair ''IDAT'') ds @ [(''IEND'', [])]))
           = Some (png_stream ((''IHDR'', h) # map (Pair ''IDAT'') ds @ [(''IEND'', [])]))"
  using assms
  by (simp add: roundtrip_def fetchPNGChunk_stream reassemble_stream)


theorem roundtrip_header_data_trailer_witness:
  "length rgba_ihdr \<le> 768 \<and> length rgba_idat < 2 ^ 32
   \<and> fetchPNGChunk (png_stream [(''IHDR'', rgba_ihdr), (''IDAT'', rgba_idat), (''IEND'', [])])
       = Return (Inr \<lparr>pc_ihdr = rgba_ihdr, pc_idats = [rgba_idat]\<rparr>)
   \<and> roundtrip (png_stream [(''IHDR'', rgba_ihdr), (''IDAT'', rgba_idat), (''IEND'', [])])
       = Some (png_stream [(''IHDR'', rgba_ihdr), (''IDAT'', rgba_idat), (''IEND'', [])])"
  using roundtrip_header_data_trailer [of rgba_ihdr "[rgba_idat]"]
  by (simp add: rgba_ihdr_def rgba_idat_def)

text \<open>
  The standalone PNG of a paletted raster is a counterexample to the claim as stated: it
  does not even decompose.
\<close>

theorem roundtrip_paletted_counterexample:
  "roundtrip paletted_png = None \<and> roundtrip paletted_png \<noteq> Some paletted_png"
  by (simp add: roundtrip_def paletted_png_fetch)

section \<open>C8: what the reader consumes per chunk\<close>

text \<open>
  Claim C8 says that the reader consumes the declared payload and then the four CRC bytes
  of every chunk, and that it skips \<^verbatim>\<open>PLTE\<close> and \<^verbatim>\<open>tRNS\<close> chunks and stays aligned. The code
  does not: for these two tags it reads nothing of the payload, and the
  \<^verbatim>\<open>c.bb.Next(4)\<close> that its comment says gets rid of the CRC drops the first four bytes
  after the prefix instead, whatever length the chunk declares. After a three-byte palette
  the next prefix is read from the last three CRC bytes on, and the standalone PNG of a
  paletted raster, which ends in a trailer chunk, fails with \<^verbatim>\<open>io.ErrUnexpectedEOF\<close>.
\<close>

theorem parsePNGChunk_skips_four_bytes_only:
  "parsePNGChunk \<lparr>bb = writeUint32 n @ bytes_of ''PLTE'' @ rest, stage = st, pc = p\<rparr>
     = Return (\<lparr>bb = drop 4 rest, stage = st, pc = p\<rparr>, None)
   \<and> parsePNGChunk \<lparr>bb = writeUint32 n @ bytes_of ''tRNS'' @ rest, stage = st, pc = p\<rparr>
     = Return (\<lparr>bb = drop 4 rest, stage = st, pc = p\<rparr>, None)
   \<and> parsePNGChunk
        \<lparr>bb = chunk_layout ''PLTE'' [0xFF, 0, 0] @ chunk_layout ''IEND'' [],
         stage = dsSeenIHDR, pc = p\<rparr>
     = Return (\<lparr>bb = drop 1 (writeUint32 (ChecksumIEEE (bytes_of ''PLTE'' @ [0xFF, 0, 0])))
                    @ chunk_layout ''IEND'' [],
                stage = dsSeenIHDR, pc = p\<rparr>, None)
   \<and> fetchPNGChunk paletted_png = Return (Inl ErrUnexpectedEOF)"
  by (simp add: parsePNGChunk_PLTE parsePNGChunk_tRNS chunk_layout_def paletted_png_fetch)

section \<open>C9: the errors of the reader\<close>

text \<open>
  Claim C9, as amended. The claim has a truncated chunk and an input that ends before the
  trailer surface as two distinguishable errors. \<^verbatim>\<open>fetchPNGChunk\<close> turns \<^verbatim>\<open>io.EOF\<close> into
  \<^verbatim>\<open>io.ErrUnexpectedEOF\<close>, and these are the only two errors a read gives, so every error
  it returns is \<^verbatim>\<open>io.ErrUnexpectedEOF\<close>: when a data chunk or a header chunk (of a declared
  length within the scratch array) has fewer bytes left than it declares, and when fewer
  than the eight bytes of a prefix are left before a trailer was seen.
\<close>

theorem fetchPNGChunk_single_error:
  "(fetchPNGChunk buf = Return (Inl e) \<longrightarrow> e = ErrUnexpectedEOF)
   \<and> (st \<noteq> dsSeenIEND \<and> length rest < unat n \<longrightarrow>
        fetchLoop \<lparr>bb = writeUint32 n @ bytes_of ''IDAT'' @ rest, stage = st, pc = p\<rparr>
          = Return (Inl ErrUnexpectedEOF))
   \<and> (st \<noteq> dsSeenIEND \<and> length rest < unat n \<and> unat n \<le> 768 \<longrightarrow>
        fetchLoop \<lparr>bb = writeUint32 n @ bytes_of ''IHDR'' @ rest, stage = st, pc = p\<rparr>
          = Return (Inl ErrUnexpectedEOF))
   \<and> (st \<noteq> dsSeenIEND \<and> length b < 8 \<longrightarrow>
        fetchLoop \<lparr>bb = b, stage = st, pc = p\<rparr> = Return (Inl ErrUnexpectedEOF))"
  using fetchLoop_errors [of _ e] fetchLoop_short_IDAT [of st rest n p]
    fetchLoop_short_IHDR [of st rest n p] fetchLoop_short_prefix [of st b p]
  by (simp add: fetchPNGChunk_def)

theorem fetchPNGChunk_single_error_witness:
  "fetchPNGChunk truncated_png = Return (Inl ErrUnexpectedEOF)
   \<and> dsSeenIHDR \<noteq> dsSeenIEND
   \<and> length [0x78 :: byte, 0x9C] < unat (13 :: uint32)
   \<and> fetchLoop \<lparr>bb = writeUint32 13 @ bytes_of ''IDAT'' @ [0x78, 0x9C], stage = dsSeenIHDR,
         pc = \<lparr>pc_ihdr = rgba_ihdr, pc_idats = []\<rparr>\<rparr> = Return (Inl ErrUnexpectedEOF)
   \<and> unat (13 :: uint32) \<le> 768
   \<and> fetchLoop \<lparr>bb = writeUint32 13 @ bytes_of ''IHDR'' @ [0x78, 0x9C], stage = dsSeenIHDR,
         pc = \<lparr>pc_ihdr = rgba_ihdr, pc_idats = []\<rparr>\<rparr> = Return (Inl ErrUnexpectedEOF)
   \<and> length [0x78 :: byte, 0x9C] < 8
   \<and> fetchLoop \<lparr>bb = [0x78, 0x9C], stage = dsSeenIHDR,
         pc = \<lparr>pc_ihdr = rgba_ihdr, pc_idats = []\<rparr>\<rparr> = Return (Inl ErrUnexpectedEOF)"
  using fetchPNGChunk_single_error [of truncated_png ErrUnexpectedEOF dsSeenIHDR
      "[0x78, 0x9C]" 13 "\<lparr>pc_ihdr = rgba_ihdr, pc_idats = []\<rparr>" "[0x78, 0x9C]"]
  by (simp add: truncated_png_fetch)

text \<open>
  A buffer cut inside its data payload and a buffer that ends before its trailer give the
  same error, against the claim as stated.
\<close>

theorem fetchPNGChunk_same_error_counterexample:
  "fetchPNGChunk truncated_png = Return (Inl ErrUnexpectedEOF)
   \<and> fetchPNGChunk no_trailer_png = Return (Inl ErrUnexpectedEOF)"
  by (simp add: truncated_png_fetch no_trailer_png_fetch)

section \<open>C10: the header length and the scratch array\<close>

text \<open>
  Claim C10. \<^verbatim>\<open>parseIHDR\<close> slices the 768-byte scratch array to the declared length. The
  call panics exactly when the declared length exceeds 768; up to 768 it returns, with the
  error of the read or with the header copied. A buffer whose first chunk is a header chunk
  that declares more than 768 bytes makes \<^verbatim>\<open>fetchPNGChunk\<close> panic, whatever follows.
\<close>

theorem parseIHDR_tmp_bounds:
  "(parseIHDR c len = Panic \<longleftrightarrow> 768 < unat len)
   \<and> (768 < unat len \<longrightarrow> length sig = 8 \<longrightarrow>
        fetchPNGChunk (sig @ writeUint32 len @ bytes_of ''IHDR'' @ rest) = Panic)"
proof -
  have "fetchPNGChunk (sig @ writeUint32 len @ bytes_of ''IHDR'' @ rest) = Panic"
    if "768 < unat len" and "length sig = 8"
    using that
    by (simp add: fetchPNGChunk_def pngHeader_def Buffer_Next_def fetchLoop.simps
        parsePNGChunk_prefix parseIHDR_def chunkFetcher_tmp_len_def)
  then show ?thesis
    by (simp add: parseIHDR_Panic_iff chunkFetcher_tmp_len_def)
qed

theorem parseIHDR_tmp_bounds_witness:
  "(parseIHDR \<lparr>bb = rgba_ihdr, stage = dsSeenIHDR, pc = \<lparr>pc_ihdr = [], pc_idats = []\<rparr>\<rparr> 769
      = Panic)
   \<and> 768 < unat (769 :: uint32) \<and> length pngHeader = 8
   \<and> fetchPNGChunk (pngHeader @ writeUint32 769 @ bytes_of ''IHDR'' @ rgba_ihdr) = Panic
   \<and> parseIHDR \<lparr>bb = rgba_ihdr, stage = dsSeenIHDR, pc = \<lparr>pc_ihdr = [], pc_idats = []\<rparr>\<rparr> 13
      \<noteq> Panic"
  using parseIHDR_tmp_bounds [of "\<lparr>bb = rgba_ihdr, stage = dsSeenIHDR,
        pc = \<lparr>pc_ihdr = [], pc_idats = []\<rparr>\<rparr>" 769 pngHeader rgba_ihdr]
    parseIHDR_tmp_bounds [of "\<lparr>bb = rgba_ihdr, stage = dsSeenIHDR,
        pc = \<lparr>pc_ihdr = [], pc_idats = []\<rparr>\<rparr>" 13 pngHeader rgba_ihdr]
  by (simp add: pngHeader_def)

end
